theory Spec2Isabelle
  imports Complex_Main "HOL-Library.AList" "HOL-Library.Sublist" "HOL-Library.Log_Nat"
begin

section \<open>Data model of the workflow builder (types/workflow.ts)\<close>

text \<open>
  \<^verbatim>\<open>export type BlockType = 'read_csv' | 'save_csv' | 'filter' | 'enrich_lead' | 'find_email'\<close>
  The union of string literals is a datatype; \<open>filter\<close> is written \<open>filter_block\<close> because
  \<open>filter\<close> is the list function of HOL.
\<close>

datatype BlockType = read_csv | save_csv | filter_block | enrich_lead | find_email

text \<open>
  \<^verbatim>\<open>export type JobStatus = 'pending' | 'running' | 'completed' | 'failed' | 'cancelled'\<close>
\<close>

datatype JobStatus = pending | running | completed | failed | cancelled

text \<open>
  Values of type \<open>any\<close> that arrive as JSON (block parameters, block-result data).
  Numbers are modelled as integers: the code below only asks whether a number is zero.
\<close>

datatype json =
    JNull
  | JBool bool
  | JNum int
  | JStr string
  | JArr "json list"
  | JObj "(string \<times> json) list"

text \<open>
  \<open>position: { x: number; y: number }\<close>. The fields are called \<open>pos_x\<close> and \<open>pos_y\<close>
  so that \<open>x\<close> and \<open>y\<close> stay free for variables. A coordinate is a JavaScript number, a
  double; the model holds the real number that the double denotes.
\<close>

record Position =
  pos_x :: real
  pos_y :: real

record BlockConfig =
  block_id :: string
  block_type :: BlockType
  name :: string
  description :: "string option"
  parameters :: "(string \<times> json) list"
  position :: Position

record WorkflowConnection =
  connection_id :: string
  source_block_id :: string
  target_block_id :: string

text \<open>
  The React state of \<open>WorkflowBuilder\<close> that the handlers below read and write:
  \<open>blocks\<close>, \<open>connections\<close>, and (in the click-to-connect variant) \<open>connectingFrom\<close> and
  \<open>isConnecting\<close>.
\<close>

record Builder =
  blocks :: "BlockConfig list"
  connections :: "WorkflowConnection list"
  connectingFrom :: "string option"
  isConnecting :: bool

definition initial_builder :: Builder where
  "initial_builder =
     \<lparr>blocks = [], connections = [], connectingFrom = None, isConnecting = False\<rparr>"

text \<open>The toast a handler shows; \<open>no_toast\<close> stands for a handler that returns silently.\<close>

datatype toast = toast_error string | toast_success string | toast_info string | no_toast

section \<open>Block defaults\<close>

definition type_string :: "BlockType \<Rightarrow> string" where
  "type_string t =
     (case t of read_csv \<Rightarrow> ''read_csv'' | save_csv \<Rightarrow> ''save_csv'' | filter_block \<Rightarrow> ''filter''
      | enrich_lead \<Rightarrow> ''enrich_lead'' | find_email \<Rightarrow> ''find_email'')"

text \<open>The \<open>type\<close> and \<open>name\<close> columns of the constant \<open>BLOCK_TYPES\<close>.\<close>

definition BLOCK_TYPES :: "(BlockType \<times> string) list" where
  "BLOCK_TYPES =
     [(read_csv, ''Read CSV''), (filter_block, ''Filter''), (enrich_lead, ''Enrich Lead''),
      (find_email, ''Find Email''), (save_csv, ''Save CSV'')]"

text \<open>
  \<open>getDefaultParameters\<close> as in the first drag-and-drop builder and in the list builder
  (the two files hold the same text). The \<open>default\<close> branch of the switch returns \<open>{}\<close>; no value of \<open>BlockType\<close> reaches it.
\<close>

definition getDefaultParameters :: "BlockType \<Rightarrow> (string \<times> json) list" where
  "getDefaultParameters blockType =
     (case blockType of
        read_csv \<Rightarrow>
          [(''file_path'', JStr ''sample_data.csv''), (''delimiter'', JStr '',''),
           (''encoding'', JStr ''utf-8''), (''skip_rows'', JNum 0)]
      | save_csv \<Rightarrow>
          [(''file_path'', JStr ''''), (''delimiter'', JStr '',''),
           (''encoding'', JStr ''utf-8''), (''index'', JBool False)]
      | filter_block \<Rightarrow>
          [(''condition'', JStr ''df['company'].str.contains('Ariglad', na=False)'')]
      | enrich_lead \<Rightarrow>
          [(''struct'', JObj
             [(''name'', JStr ''Full name''), (''email'', JStr ''Email address''),
              (''company'', JStr ''Company name''), (''title'', JStr ''Job title''),
              (''linkedin'', JStr ''LinkedIn URL''),
              (''education'', JStr ''Educational background including university'')]),
           (''batch_size'', JNum 10), (''timeout'', JNum 30)]
      | find_email \<Rightarrow>
          [(''batch_size'', JNum 10), (''timeout'', JNum 30)])"

text \<open>\<open>getDefaultParameters\<close> as in the drag-and-drop builder with click-to-connect.\<close>

definition getDefaultParameters_connect :: "BlockType \<Rightarrow> (string \<times> json) list" where
  "getDefaultParameters_connect blockType =
     (case blockType of
        read_csv \<Rightarrow>
          [(''file_path'', JStr ''sample_data.csv''), (''delimiter'', JStr '',''),
           (''encoding'', JStr ''utf-8''), (''skip_rows'', JNum 0)]
      | save_csv \<Rightarrow>
          [(''file_path'', JStr ''''), (''delimiter'', JStr '',''),
           (''encoding'', JStr ''utf-8''), (''index'', JBool False)]
      | filter_block \<Rightarrow>
          [(''condition'', JStr ''df['company'].str.contains('Ariglad Inc', na=False)'')]
      | enrich_lead \<Rightarrow>
          [(''struct'', JObj
             [(''name'', JStr ''The individual's full name''),
              (''email'', JStr ''The individual's email address''),
              (''phone'', JStr ''The individual's phone number''),
              (''company'', JStr ''The company the individual is associated with''),
              (''title'', JStr ''The individual's job title''),
              (''linkedin'', JStr ''LinkedIn URL for the person''),
              (''website'', JStr ''Company website URL''),
              (''location'', JStr ''The individual's location and/or company location''),
              (''industry'', JStr ''Industry the person operates in''),
              (''github_url'', JStr ''URL for their GitHub profile''),
              (''github_notes'', JStr ''Take detailed notes on their GitHub profile.'')]),
           (''batch_size'', JNum 10)]
      | find_email \<Rightarrow>
          [(''batch_size'', JNum 10), (''bruteforce'', JBool True),
           (''only_company_emails'', JBool False)])"

text \<open>
  Modelled from the spec: the Enrichment Client is not among the source files; its default
  batch size is the one of section 4.3, "batches of batchSize (default 10) concurrent
  in-flight requests".
\<close>

definition default_batch_size :: nat where
  "default_batch_size = 10"

section \<open>JavaScript numbers\<close>

text \<open>
  A JavaScript number is an IEEE 754 double. The sum, difference or product of two doubles
  is the exact result rounded to the nearest double, a tie going to the double with the
  even mantissa; \<open>to_double\<close> is this rounding, on the real numbers. A double has a mantissa
  of 53 bits; below 2^-1022 the doubles are the multiples of 2^-1074. Where JavaScript
  gives \<open>Infinity\<close> (an exact result beyond the largest double), \<open>to_double\<close> gives a real
  number above every bound the code compares with, so that every comparison of the code
  has the same outcome.
\<close>

definition pow2 :: "int \<Rightarrow> real" where
  "pow2 e = (if 0 \<le> e then 2 ^ nat e else 1 / 2 ^ nat (- e))"

text \<open>The exponent \<open>e\<close> with \<open>2^e \<le> a < 2^(e+1)\<close>, for a positive \<open>a\<close>.\<close>

definition binade :: "real \<Rightarrow> int" where
  "binade a = (if 1 \<le> a then bitlen \<lfloor>a\<rfloor> - 1 else - bitlen (\<lceil>1 / a\<rceil> - 1))"

text \<open>The distance between neighbouring doubles at a positive \<open>a\<close>.\<close>

definition ulp :: "real \<Rightarrow> real" where
  "ulp a = pow2 (max (binade a) (- 1022) - 52)"

definition round_half_even :: "real \<Rightarrow> int" where
  "round_half_even t =
     (let n = \<lfloor>t\<rfloor>; r = t - of_int n
      in if r < 1 / 2 then n else if 1 / 2 < r then n + 1 else if even n then n else n + 1)"

definition to_double :: "real \<Rightarrow> real" where
  "to_double v =
     (if v = 0 then 0
      else sgn v * (ulp \<bar>v\<bar> * of_int (round_half_even (\<bar>v\<bar> / ulp \<bar>v\<bar>))))"

section \<open>Adding a block\<close>

text \<open>
  The loop test of \<open>addBlock\<close>, with its two subtractions in double arithmetic:
  \<^verbatim>\<open>Math.abs(pos.x - x) < 220 && Math.abs(pos.y - y) < 140\<close>
\<close>

definition overlaps :: "Position \<Rightarrow> real \<Rightarrow> real \<Rightarrow> bool" where
  "overlaps pos x y \<longleftrightarrow>
     \<bar>to_double (pos_x pos - x)\<bar> < 220 \<and> \<bar>to_double (pos_y pos - y)\<bar> < 140"

text \<open>
  The search loop of \<open>addBlock\<close>, on the loop variables \<open>x\<close> and \<open>y\<close>, with its two additions
  in double arithmetic:
  \<^verbatim>\<open>
  while (existingPositions.some(pos => ...)) {
    x += 250
    if (x > 800) { x = 200; y += 160 }
  }\<close>
  The result is \<open>None\<close> when the loop does not end.
\<close>

partial_function (option) find_free_position ::
  "Position list \<Rightarrow> real \<Rightarrow> real \<Rightarrow> (real \<times> real) option" where
  "find_free_position existingPositions x y =
     (if list_ex (\<lambda>pos. overlaps pos x y) existingPositions
      then (if to_double (x + 250) > 800
            then find_free_position existingPositions 200 (to_double (y + 160))
            else find_free_position existingPositions (to_double (x + 250)) y)
      else Some (x, y))"

text \<open>\<open>v || d\<close> on numbers: zero is falsy.\<close>

definition or_default :: "real \<Rightarrow> real \<Rightarrow> real" where
  "or_default v d = (if v = 0 then d else v)"

text \<open>
  The object \<open>newBlock\<close> of \<open>addBlock\<close>, once \<open>x\<close> and \<open>y\<close> are fixed. The first argument is the
  function \<open>getDefaultParameters\<close> of the file the handler stands in, the second the
  identifier that \<open>uuidv4()\<close> returns.
\<close>

definition new_block ::
  "(BlockType \<Rightarrow> (string \<times> json) list) \<Rightarrow> string \<Rightarrow> BlockType \<Rightarrow> real \<Rightarrow> real \<Rightarrow> BlockConfig" where
  "new_block defaults uuid blockType x y =
     \<lparr>block_id = uuid, block_type = blockType,
      name = (case find (\<lambda>bt. fst bt = blockType) BLOCK_TYPES of
                None \<Rightarrow> type_string blockType
              | Some bt \<Rightarrow> if snd bt = [] then type_string blockType else snd bt),
      description = None,
      parameters = defaults blockType,
      position = \<lparr>pos_x = x, pos_y = y\<rparr>\<rparr>"

text \<open>The end of \<open>addBlock\<close>: \<open>setBlocks\<close> with the new block, and the toast.\<close>

definition place_block ::
  "(BlockType \<Rightarrow> (string \<times> json) list) \<Rightarrow> string \<Rightarrow> BlockType \<Rightarrow> real \<Rightarrow> real \<Rightarrow>
     Builder \<Rightarrow> Builder \<times> toast" where
  "place_block defaults uuid blockType x y st =
     (let newBlock = new_block defaults uuid blockType x y
      in (st\<lparr>blocks := blocks st @ [newBlock]\<rparr>,
          toast_success (''Added '' @ name newBlock @ '' block'')))"

text \<open>
  \<open>addBlock(blockType, position?)\<close>: the state after \<open>setBlocks\<close> and the toast shown, or
  \<open>None\<close> when the search loop does not end.
\<close>

definition addBlock ::
  "(BlockType \<Rightarrow> (string \<times> json) list) \<Rightarrow> string \<Rightarrow> BlockType \<Rightarrow> Position option \<Rightarrow>
     Builder \<Rightarrow> (Builder \<times> toast) option" where
  "addBlock defaults uuid blockType pos st =
     (let existingPositions = map position (blocks st);
          x0 = (case pos of None \<Rightarrow> 200 | Some p \<Rightarrow> or_default (pos_x p) 200);
          y0 = (case pos of None \<Rightarrow> 200 | Some p \<Rightarrow> or_default (pos_y p) 200)
      in if pos = None
         then (case find_free_position existingPositions x0 y0 of
                 None \<Rightarrow> None
               | Some xy \<Rightarrow> Some (place_block defaults uuid blockType (fst xy) (snd xy) st))
         else Some (place_block defaults uuid blockType x0 y0 st))"

text \<open>
  \<open>addBlock(blockType)\<close> of the list builder, which places the block at
  \<open>{ x: Math.random() * 400, y: Math.random() * 200 }\<close>; the two random numbers are the
  first two arguments.
\<close>

definition addBlock_random ::
  "real \<Rightarrow> real \<Rightarrow> string \<Rightarrow> BlockType \<Rightarrow> Builder \<Rightarrow> Builder \<times> toast" where
  "addBlock_random random1 random2 uuid blockType st =
     place_block getDefaultParameters uuid blockType
       (to_double (random1 * 400)) (to_double (random2 * 200)) st"

section \<open>Removing and updating blocks\<close>

definition removeBlock :: "string \<Rightarrow> Builder \<Rightarrow> Builder \<times> toast" where
  "removeBlock blockId st =
     (st\<lparr>blocks := filter (\<lambda>block. block_id block \<noteq> blockId) (blocks st),
         connections := filter (\<lambda>conn. source_block_id conn \<noteq> blockId \<and>
                                        target_block_id conn \<noteq> blockId) (connections st)\<rparr>,
      toast_success ''Block removed'')"

text \<open>
  The two shapes of \<open>updates\<close> that the component passes to \<open>updateBlock\<close>: a new position
  (dragging) and new parameters (the parameters dialog).
\<close>

datatype BlockUpdates = new_position Position | new_parameters "(string \<times> json) list"

definition apply_updates :: "BlockUpdates \<Rightarrow> BlockConfig \<Rightarrow> BlockConfig" where
  "apply_updates updates block =
     (case updates of
        new_position p \<Rightarrow> block\<lparr>position := p\<rparr>
      | new_parameters ps \<Rightarrow> block\<lparr>parameters := ps\<rparr>)"

definition updateBlock :: "string \<Rightarrow> BlockUpdates \<Rightarrow> Builder \<Rightarrow> Builder" where
  "updateBlock blockId updates st =
     st\<lparr>blocks := map (\<lambda>block. if block_id block = blockId then apply_updates updates block
                                else block) (blocks st)\<rparr>"

section \<open>Connecting blocks\<close>

text \<open>
  \<open>connectBlocks(sourceId, targetId)\<close>; the first argument is the identifier that
  \<open>uuidv4()\<close> returns. The handler is created anew whenever \<open>connections\<close> changes, so the
  list it searches is the list it appends to.
\<close>

definition connectBlocks :: "string \<Rightarrow> string \<Rightarrow> string \<Rightarrow> Builder \<Rightarrow> Builder \<times> toast" where
  "connectBlocks uuid sourceId targetId st =
     (case find (\<lambda>conn. source_block_id conn = sourceId \<and> target_block_id conn = targetId)
             (connections st) of
        Some existingConnection \<Rightarrow> (st, toast_error ''Connection already exists'')
      | None \<Rightarrow>
          if sourceId = targetId then (st, toast_error ''Cannot connect block to itself'')
          else (st\<lparr>connections := connections st @
                      [\<lparr>connection_id = uuid, source_block_id = sourceId,
                        target_block_id = targetId\<rparr>]\<rparr>,
                toast_success ''Blocks connected''))"

definition startConnection :: "string \<Rightarrow> Builder \<Rightarrow> Builder \<times> toast" where
  "startConnection blockId st =
     (st\<lparr>connectingFrom := Some blockId, isConnecting := True\<rparr>,
      toast_info ''Click on another block to connect'')"

text \<open>
  \<open>finishConnection(targetId)\<close>. The guard \<open>!connectingFrom || !isConnecting\<close> holds for
  \<open>null\<close> and for the empty string.
\<close>

definition finishConnection :: "string \<Rightarrow> string \<Rightarrow> Builder \<Rightarrow> Builder \<times> toast" where
  "finishConnection uuid targetId st =
     (case connectingFrom st of
        None \<Rightarrow> (st, no_toast)
      | Some src \<Rightarrow>
          if src = [] \<or> \<not> isConnecting st then (st, no_toast)
          else
            (case find (\<lambda>conn. source_block_id conn = src \<and> target_block_id conn = targetId)
                    (connections st) of
               Some existingConnection \<Rightarrow>
                 (st\<lparr>connectingFrom := None, isConnecting := False\<rparr>,
                  toast_error ''Connection already exists'')
             | None \<Rightarrow>
                 if src = targetId
                 then (st\<lparr>connectingFrom := None, isConnecting := False\<rparr>,
                       toast_error ''Cannot connect block to itself'')
                 else (st\<lparr>connections := connections st @
                             [\<lparr>connection_id = uuid, source_block_id = src,
                               target_block_id = targetId\<rparr>],
                           connectingFrom := None, isConnecting := False\<rparr>,
                       toast_success ''Blocks connected'')))"

definition cancelConnection :: "Builder \<Rightarrow> Builder" where
  "cancelConnection st = st\<lparr>connectingFrom := None, isConnecting := False\<rparr>"

definition removeConnection :: "string \<Rightarrow> Builder \<Rightarrow> Builder \<times> toast" where
  "removeConnection connectionId st =
     (st\<lparr>connections := filter (\<lambda>conn. connection_id conn \<noteq> connectionId) (connections st)\<rparr>,
      toast_success ''Connection removed'')"

text \<open>
  The states the builder can be in: the initial state, and every state a handler produces
  from one of them.
\<close>

inductive reachable :: "Builder \<Rightarrow> bool" where
  reach_init: "reachable initial_builder"
| reach_add:
    "reachable st \<Longrightarrow> addBlock defaults uuid blockType pos st = Some added \<Longrightarrow>
     reachable (fst added)"
| reach_add_random:
    "reachable st \<Longrightarrow> reachable (fst (addBlock_random random1 random2 uuid blockType st))"
| reach_remove: "reachable st \<Longrightarrow> reachable (fst (removeBlock blockId st))"
| reach_update: "reachable st \<Longrightarrow> reachable (updateBlock blockId updates st)"
| reach_connect: "reachable st \<Longrightarrow> reachable (fst (connectBlocks uuid sourceId targetId st))"
| reach_start: "reachable st \<Longrightarrow> reachable (fst (startConnection blockId st))"
| reach_finish: "reachable st \<Longrightarrow> reachable (fst (finishConnection uuid targetId st))"
| reach_cancel: "reachable st \<Longrightarrow> reachable (cancelConnection st)"
| reach_remove_connection:
    "reachable st \<Longrightarrow> reachable (fst (removeConnection connectionId st))"

text \<open>The graph that a connection list induces, and the two list invariants.\<close>

definition edge :: "WorkflowConnection \<Rightarrow> string \<times> string" where
  "edge conn = (source_block_id conn, target_block_id conn)"

definition edges :: "WorkflowConnection list \<Rightarrow> (string \<times> string) set" where
  "edges conns = set (map edge conns)"

definition no_self_loop :: "WorkflowConnection list \<Rightarrow> bool" where
  "no_self_loop conns = list_all (\<lambda>conn. source_block_id conn \<noteq> target_block_id conn) conns"

definition no_duplicate_pair :: "WorkflowConnection list \<Rightarrow> bool" where
  "no_duplicate_pair conns = distinct (map edge conns)"

definition has_pair :: "string \<Rightarrow> string \<Rightarrow> WorkflowConnection list \<Rightarrow> bool" where
  "has_pair sourceId targetId conns =
     list_ex (\<lambda>conn. source_block_id conn = sourceId \<and> target_block_id conn = targetId) conns"

definition conn_inv :: "WorkflowConnection list \<Rightarrow> bool" where
  "conn_inv conns \<longleftrightarrow> no_self_loop conns \<and> no_duplicate_pair conns"

text \<open>Every connection joins two blocks of the state.\<close>

definition connections_closed :: "Builder \<Rightarrow> bool" where
  "connections_closed st =
     list_all (\<lambda>conn. source_block_id conn \<in> block_id ` set (blocks st) \<and>
                       target_block_id conn \<in> block_id ` set (blocks st)) (connections st)"

section \<open>The data preview of the results panel (ResultsPanel.tsx)\<close>

datatype ViewMode = view_table | view_json

datatype js_error = TypeError

text \<open>
  What \<open>renderDataPreview\<close> returns: a \<open>pre\<close> element holding \<open>JSON.stringify(data, null, 2)\<close>,
  or a table with its header cells, its body rows (the text of each cell) and, when
  present, the line "Showing \<open>maxRows\<close> of \<open>data.length\<close> rows" as the pair of the two
  numbers.
\<close>

datatype preview =
    json_view json
  | table_view "string list" "string list list" "(nat \<times> nat) option"

text \<open>\<open>!data\<close>: \<open>null\<close>, \<open>false\<close>, \<open>0\<close> and the empty string are falsy.\<close>

definition falsy :: "json \<Rightarrow> bool" where
  "falsy v = (case v of JNull \<Rightarrow> True | JBool b \<Rightarrow> \<not> b | JNum n \<Rightarrow> n = 0 | JStr s \<Rightarrow> s = []
              | JArr _ \<Rightarrow> False | JObj _ \<Rightarrow> False)"

text \<open>\<open>typeof v === 'object'\<close> holds for objects, arrays and \<open>null\<close>.\<close>

definition typeof_object :: "json \<Rightarrow> bool" where
  "typeof_object v = (case v of JNull \<Rightarrow> True | JArr _ \<Rightarrow> True | JObj _ \<Rightarrow> True | _ \<Rightarrow> False)"

text \<open>The exceptions of a list of computations, in order: the first one is thrown.\<close>

fun collect_rows :: "('x + 'r) list \<Rightarrow> 'x + 'r list" where
  "collect_rows [] = Inr []"
| "collect_rows (r # rs) =
     (case r of Inl e \<Rightarrow> Inl e | Inr v \<Rightarrow> map_sum id (Cons v) (collect_rows rs))"

text \<open>
  One body row: \<open>columns.map(column => String(row[column] || ''))\<close>. Reading a property of
  \<open>null\<close> throws a TypeError; with no column, no property is read. The text of a cell of a
  row that is not \<open>null\<close> (JavaScript's property lookup and \<open>String\<close>) is the parameter
  \<open>cell\<close>.
\<close>

definition render_row ::
  "(json \<Rightarrow> string \<Rightarrow> string) \<Rightarrow> string list \<Rightarrow> json \<Rightarrow> js_error + string list" where
  "render_row cell columns row =
     (if columns = [] then Inr []
      else if row = JNull then Inl TypeError
      else Inr (map (cell row) columns))"

text \<open>
  \<open>renderDataPreview(data)\<close>, with the component's \<open>viewMode\<close>. \<open>data = None\<close> is
  \<open>undefined\<close>; the result \<open>Inr None\<close> is \<open>return null\<close>; \<open>Inl\<close> is an exception thrown while
  rendering. \<open>Object.keys\<close> on a value that is not \<open>null\<close> is the parameter \<open>keys\<close>;
  \<open>Object.keys(null)\<close> throws a TypeError.
\<close>

definition renderDataPreview ::
  "(json \<Rightarrow> string list) \<Rightarrow> (json \<Rightarrow> string \<Rightarrow> string) \<Rightarrow> ViewMode \<Rightarrow> json option \<Rightarrow>
     js_error + preview option" where
  "renderDataPreview keys cell viewMode data =
     (case data of
        None \<Rightarrow> Inr None
      | Some d \<Rightarrow>
          if falsy d then Inr None
          else if viewMode = view_json then Inr (Some (json_view d))
          else
            (case d of
               JArr (first # rest) \<Rightarrow>
                 if typeof_object first then
                   (if first = JNull then Inl TypeError
                    else
                      (let columns = keys first; maxRows = 10 in
                       case collect_rows (map (render_row cell columns)
                                        (take maxRows (first # rest))) of
                         Inl e \<Rightarrow> Inl e
                       | Inr body \<Rightarrow>
                           Inr (Some (table_view columns body
                             (if length (first # rest) > maxRows
                              then Some (maxRows, length (first # rest)) else None)))))
                 else Inr (Some (json_view d))
             | _ \<Rightarrow> Inr (Some (json_view d))))"

section \<open>Jobs (types/workflow.ts) and the job monitor (JobMonitor.tsx)\<close>

record JobProgress =
  current_step :: nat
  total_steps :: nat
  current_block_id :: "string option"
  current_block_name :: "string option"
  processed_rows :: nat
  total_rows :: nat
  message :: string
  percentage :: real

text \<open>
  \<open>JobResult\<close>; its fields \<open>block_id\<close> and \<open>block_type\<close> carry the prefix \<open>result_\<close> here,
  since the fields of \<open>BlockConfig\<close> have these names.
\<close>

record JobResult =
  result_block_id :: string
  result_block_type :: BlockType
  success :: bool
  data :: "json option"
  error :: "string option"
  execution_time :: real
  rows_processed :: nat
  rows_output :: nat

record Job =
  job_id :: string
  workflow_id :: string
  status :: JobStatus
  progress :: JobProgress
  results :: "JobResult list"
  created_at :: string
  started_at :: "string option"
  completed_at :: "string option"
  error_message :: "string option"
  final_output_path :: "string option"

text \<open>
  The job monitor renders the "Cancel Job" button, whose click calls
  \<open>handleCancelJob(selectedJob.job_id)\<close>, under the guard
  \<^verbatim>\<open>selectedJob.status === 'running' && (...)\<close>
  The function gives the job id of the cancellation request a click can send, if any.
\<close>

definition cancel_button :: "Job \<Rightarrow> string option" where
  "cancel_button selectedJob =
     (if status selectedJob = running then Some (job_id selectedJob) else None)"

section \<open>The job controller and the pipeline scheduler\<close>

text \<open>
  Modelled from the spec: the job controller and the pipeline scheduler are not among the
  source files. The model follows section 4.5, with the states pending, running,
  completed, failed and cancelled: pending to running "triggered by execution request";
  running to completed when "all blocks executed"; running to failed when "a block executor
  raises a fatal, non-recoverable error", where "the failing block's BlockResult records
  the error and no further blocks execute"; running to cancelled when "an explicit
  cancellation request is
  observed at the next safe suspension point between blocks; blocks already completed
  keep their BlockResult, the next queued block is never started". A job is "terminal once
  status reaches completed, failed, or cancelled; never mutated thereafter".

  An execution is the job, the blocks of the plan that have not started, and whether a
  cancellation request is waiting to be observed. Running a block is the parameter
  \<open>run_block\<close>, from the results so far and the block to its \<open>JobResult\<close>; a result with
  \<open>success = False\<close> is a fatal error of the block.
\<close>

record Execution =
  job :: Job
  queue :: "BlockConfig list"
  cancel_requested :: bool

text \<open>
  Modelled from the spec: what the job controller reacts to (section 4.5): the "execution
  request", the "explicit cancellation request", and the "safe suspension point between
  blocks" at which the scheduler goes on. Each event comes with its time.
\<close>

datatype event = execution_request | cancellation_request | block_boundary

text \<open>
  Modelled from the spec: "each of the three listed states is terminal" (section 4.5).
\<close>

definition terminal :: "JobStatus \<Rightarrow> bool" where
  "terminal s \<longleftrightarrow> s = completed \<or> s = failed \<or> s = cancelled"

text \<open>
  Modelled from the spec: a job is "created in pending when a workflow execution is
  requested" (section 3); the plan is the validated graph in execution order.
\<close>

definition submitJob :: "string \<Rightarrow> string \<Rightarrow> string \<Rightarrow> BlockConfig list \<Rightarrow> Execution" where
  "submitJob jid wid now plan =
     \<lparr>job = \<lparr>job_id = jid, workflow_id = wid, status = pending,
              progress = \<lparr>current_step = 0, total_steps = length plan, current_block_id = None,
                          current_block_name = None, processed_rows = 0, total_rows = 0,
                          message = [], percentage = 0\<rparr>,
              results = [], created_at = now, started_at = None, completed_at = None,
              error_message = None, final_output_path = None\<rparr>,
      queue = plan, cancel_requested = False\<rparr>"

text \<open>
  Modelled from the spec: reaching a terminal status, with the completion timestamp of
  section 3.
\<close>

definition finish_job :: "JobStatus \<Rightarrow> string \<Rightarrow> Job \<Rightarrow> Job" where
  "finish_job s now j = j\<lparr>status := s, completed_at := Some now\<rparr>"

text \<open>
  Modelled from the spec: a BlockResult is "appended to the Job's result sequence in
  execution order", and the scheduler "updates Progress (current step, cumulative rows)"
  (sections 3 and 4.5).
\<close>

definition record_result :: "BlockConfig \<Rightarrow> JobResult \<Rightarrow> Job \<Rightarrow> Job" where
  "record_result b r j =
     j\<lparr>results := results j @ [r],
       progress := (progress j)\<lparr>current_step := Suc (length (results j)),
                                 current_block_id := Some (block_id b),
                                 current_block_name := Some (name b),
                                 processed_rows := processed_rows (progress j) + rows_processed r\<rparr>\<rparr>"

text \<open>
  Modelled from the spec: one reaction of the job controller and scheduler to an event, by
  the four transitions of section 4.5. An event that section 4.5 gives no transition for
  leaves the execution as it is; so does every event once the job is terminal ("never
  mutated thereafter").
\<close>

definition step ::
  "(JobResult list \<Rightarrow> BlockConfig \<Rightarrow> JobResult) \<Rightarrow> Execution \<Rightarrow> event \<times> string \<Rightarrow> Execution" where
  "step run_block ex ev =
     (case fst ev of
        execution_request \<Rightarrow>
          if status (job ex) = pending
          then ex\<lparr>job := (job ex)\<lparr>status := running, started_at := Some (snd ev)\<rparr>\<rparr>
          else ex
      | cancellation_request \<Rightarrow>
          if status (job ex) = running then ex\<lparr>cancel_requested := True\<rparr> else ex
      | block_boundary \<Rightarrow>
          if status (job ex) \<noteq> running then ex
          else if cancel_requested ex
          then ex\<lparr>job := finish_job cancelled (snd ev) (job ex)\<rparr>
          else
            (case queue ex of
               [] \<Rightarrow> ex\<lparr>job := finish_job completed (snd ev) (job ex)\<rparr>
             | b # bs \<Rightarrow>
                 (let r = run_block (results (job ex)) b;
                      j = record_result b r (job ex)
                  in if success r then ex\<lparr>job := j, queue := bs\<rparr>
                     else ex\<lparr>job := finish_job failed (snd ev) (j\<lparr>error_message := error r\<rparr>),
                             queue := bs\<rparr>)))"

text \<open>
  Modelled from the spec: the execution after a sequence of events.
\<close>

definition run_events ::
  "(JobResult list \<Rightarrow> BlockConfig \<Rightarrow> JobResult) \<Rightarrow> Execution \<Rightarrow> (event \<times> string) list \<Rightarrow> Execution" where
  "run_events run_block ex evs = foldl (step run_block) ex evs"

text \<open>
  Modelled from the spec: the transitions section 4.5 lists.
\<close>

definition allowed_transition :: "JobStatus \<Rightarrow> JobStatus \<Rightarrow> bool" where
  "allowed_transition s s' \<longleftrightarrow>
     (s = pending \<and> s' = running) \<or> (s = running \<and> s' = completed) \<or>
     (s = running \<and> s' = failed) \<or> (s = running \<and> s' = cancelled)"

section \<open>Block executors\<close>

text \<open>
  Modelled from the spec: the block executors and the Enrichment Client are not among the
  source files. The model follows sections 4.3 and 4.4. An executor is
  "execute(inputTable?, config) -> outputTable (or none), rowsIn, rowsOut". A row is the
  list of its named cells, a table the list of its rows.
\<close>

type_synonym row = "(string \<times> json) list"

type_synonym table = "row list"

text \<open>
  Modelled from the spec: what an executor returns, "outputTable (or none), rowsIn,
  rowsOut" (section 4.4).
\<close>

record Executed =
  outputTable :: "table option"
  rowsIn :: nat
  rowsOut :: nat

text \<open>
  Modelled from the spec: the configuration errors of the executors modelled here.
\<close>

datatype config_error = MalformedPredicate | InvalidBatchSize

text \<open>
  Modelled from the spec: filter "evaluates a boolean row predicate expressed against named
  columns; produces the subset of rows satisfying it; rows failing predicate evaluation
  (e.g. missing column) are treated as non-matching, not fatal, unless the predicate itself
  is malformed (config-time error)". Reading the configured condition is the parameter
  \<open>compile\<close>: \<open>Inl\<close> for a malformed predicate, otherwise the predicate, which gives \<open>None\<close>
  on a row it cannot be evaluated on.
\<close>

definition execute_filter ::
  "(string \<Rightarrow> config_error + (row \<Rightarrow> bool option)) \<Rightarrow> string \<Rightarrow> table \<Rightarrow>
     config_error + Executed" where
  "execute_filter compile condition inputTable =
     (case compile condition of
        Inl e \<Rightarrow> Inl e
      | Inr predicate \<Rightarrow>
          (let out = filter (\<lambda>r. predicate r = Some True) inputTable
           in Inr \<lparr>outputTable = Some out, rowsIn = length inputTable, rowsOut = length out\<rparr>))"

text \<open>
  Modelled from the spec: the Enrichment Client, "enrichBatch(records, schema, batchSize) ->
  list of (record, outcome)", which "partitions records into batches of batchSize" and
  where "failure of one record produces a per-record error entry, not an exception
  aborting the whole batch". The external service is the parameter \<open>service\<close>, from the
  request parameters and a record to its outcome. The spec gives no behaviour for a batch
  size of 0; the model refuses it as a configuration error.
\<close>

datatype outcome = enriched row | enrichment_error string

record Request =
  field_schema :: "(string \<times> string) list"
  aggressive_search :: bool

text \<open>
  Modelled from the spec: "partitions records into batches of batchSize" (section 4.3).
\<close>

function batches :: "nat \<Rightarrow> 'a list \<Rightarrow> 'a list list" where
  "batches batchSize records =
     (if batchSize = 0 \<or> records = [] then []
      else take batchSize records # batches batchSize (drop batchSize records))"
  by pat_completeness auto
termination
  by (relation "measure (\<lambda>(batchSize, records). length records)") auto

declare batches.simps [simp del]

text \<open>
  Modelled from the spec: \<open>enrichBatch\<close> (section 4.3), every record of every batch with its
  own outcome.
\<close>

definition enrichBatch ::
  "(Request \<Rightarrow> row \<Rightarrow> outcome) \<Rightarrow> row list \<Rightarrow> Request \<Rightarrow> nat \<Rightarrow>
     config_error + (row \<times> outcome) list" where
  "enrichBatch service records request batchSize =
     (if batchSize = 0 then Inl InvalidBatchSize
      else Inr (concat (map (map (\<lambda>r. (r, service request r))) (batches batchSize records))))"

text \<open>
  Modelled from the spec: enrich-record, "for each row, constructs a record from selected
  columns and a target field schema, calls the Enrichment Client in batches, merges
  returned fields back into the row; rows whose enrichment call failed retain original
  columns plus an error marker column rather than being dropped"; find-contact is
  "structurally identical to enrich-record" with a narrower field schema and a toggle for
  aggressive search "affecting request parameters only". The name of the error marker
  column is the parameter \<open>marker\<close>.
\<close>

definition select_columns :: "string list \<Rightarrow> row \<Rightarrow> row" where
  "select_columns selected r = filter (\<lambda>cell. fst cell \<in> set selected) r"

text \<open>
  Modelled from the spec: "merges returned fields back into the row" (section 4.4): a
  returned field replaces the cell of its name, or is added as a new cell.
\<close>

definition merge_fields :: "row \<Rightarrow> row \<Rightarrow> row" where
  "merge_fields r returned = foldl (\<lambda>acc cell. AList.update (fst cell) (snd cell) acc) r returned"

text \<open>
  Modelled from the spec: the output row for an input row and its outcome (section 4.4): the
  merged row, or the "original columns plus an error marker column".
\<close>

definition enriched_row :: "string \<Rightarrow> row \<Rightarrow> outcome \<Rightarrow> row" where
  "enriched_row marker r oc =
     (case oc of
        enriched returned \<Rightarrow> merge_fields r returned
      | enrichment_error msg \<Rightarrow> r @ [(marker, JStr msg)])"

text \<open>
  Modelled from the spec: the executor that enrich-record and find-contact share
  (section 4.4).
\<close>

definition enrich_rows ::
  "(Request \<Rightarrow> row \<Rightarrow> outcome) \<Rightarrow> string \<Rightarrow> string list \<Rightarrow> Request \<Rightarrow> nat \<Rightarrow> table \<Rightarrow>
     config_error + Executed" where
  "enrich_rows service marker selected request batchSize inputTable =
     (case enrichBatch service (map (select_columns selected) inputTable) request batchSize of
        Inl e \<Rightarrow> Inl e
      | Inr outcomes \<Rightarrow>
          (let out = map (\<lambda>(r, oc). enriched_row marker r (snd oc)) (zip inputTable outcomes)
           in Inr \<lparr>outputTable = Some out, rowsIn = length inputTable, rowsOut = length out\<rparr>))"

text \<open>
  Modelled from the spec: enrich-record, with its target field schema (section 4.4).
\<close>

definition execute_enrich_record ::
  "(Request \<Rightarrow> row \<Rightarrow> outcome) \<Rightarrow> string \<Rightarrow> string list \<Rightarrow> (string \<times> string) list \<Rightarrow> nat \<Rightarrow>
     table \<Rightarrow> config_error + Executed" where
  "execute_enrich_record service marker selected target_fields batchSize inputTable =
     enrich_rows service marker selected
       \<lparr>field_schema = target_fields, aggressive_search = False\<rparr> batchSize inputTable"

text \<open>
  Modelled from the spec: find-contact, with its narrower field schema and the aggressive
  search toggle, which changes the request only (section 4.4).
\<close>

definition execute_find_contact ::
  "(Request \<Rightarrow> row \<Rightarrow> outcome) \<Rightarrow> string \<Rightarrow> string list \<Rightarrow> (string \<times> string) list \<Rightarrow> bool \<Rightarrow>
     nat \<Rightarrow> table \<Rightarrow> config_error + Executed" where
  "execute_find_contact service marker selected contact_fields aggressive batchSize inputTable =
     enrich_rows service marker selected
       \<lparr>field_schema = contact_fields, aggressive_search = aggressive\<rparr> batchSize inputTable"

section \<open>Auxiliary notions and example states\<close>

text \<open>The positions the search loop visits from its start at (200, 200).\<close>

definition on_grid :: "real \<Rightarrow> real \<Rightarrow> bool" where
  "on_grid x y \<longleftrightarrow> (x = 200 \<or> x = 450 \<or> x = 700) \<and> (\<exists>k::nat. y = 200 + 160 * real k)"

text \<open>
  A builder in which three blocks have been added from the palette by a click: the search
  loop has put them side by side.
\<close>

definition three_blocks :: Builder where
  "three_blocks =
     fst (place_block getDefaultParameters ''b3'' save_csv 700 200
       (fst (place_block getDefaultParameters ''b2'' enrich_lead 450 200
         (fst (place_block getDefaultParameters ''b1'' read_csv 200 200 initial_builder)))))"


text \<open>The builder after connecting A to B.\<close>

definition a_to_b :: Builder where
  "a_to_b = fst (connectBlocks ''c1'' ''A'' ''B'' initial_builder)"

text \<open>Three blocks in a chain.\<close>

definition two_connected :: Builder where
  "two_connected =
     fst (connectBlocks ''c2'' ''b2'' ''b3''
       (fst (connectBlocks ''c1'' ''b1'' ''b2'' three_blocks)))"

text \<open>Rows that are JSON objects, and a sample of the two JavaScript built-ins on them.\<close>

definition is_object :: "json \<Rightarrow> bool" where
  "is_object v = (case v of JObj _ \<Rightarrow> True | _ \<Rightarrow> False)"

definition sample_keys :: "json \<Rightarrow> string list" where
  "sample_keys v = (case v of JObj kvs \<Rightarrow> map fst kvs | _ \<Rightarrow> [])"

definition sample_cell :: "json \<Rightarrow> string \<Rightarrow> string" where
  "sample_cell v column =
     (case v of
        JObj kvs \<Rightarrow> (case map_of kvs column of Some (JStr s) \<Rightarrow> s | _ \<Rightarrow> [])
      | _ \<Rightarrow> [])"

definition twelve_rows :: "json list" where
  "twelve_rows = replicate 12 (JObj [(''company'', JStr ''Acme'')])"

text \<open>A cancellation request is waiting, or has been observed.\<close>

definition cancel_pending :: "Execution \<Rightarrow> bool" where
  "cancel_pending ex \<longleftrightarrow>
     (status (job ex) = running \<and> cancel_requested ex) \<or> status (job ex) = cancelled"

text \<open>A block runner for the examples: a block succeeds unless it is a filter block.\<close>

definition sample_run :: "JobResult list \<Rightarrow> BlockConfig \<Rightarrow> JobResult" where
  "sample_run done b =
     \<lparr>result_block_id = block_id b, result_block_type = block_type b,
      success = (block_type b \<noteq> filter_block), data = None,
      error = (if block_type b = filter_block then Some ''malformed condition'' else None),
      execution_time = 0, rows_processed = 3, rows_output = 3\<rparr>"

definition sample_job :: Execution where
  "sample_job = submitJob ''j1'' ''w1'' ''t0'' (blocks three_blocks)"

text \<open>The sample job after its first block, when started, and a job with an empty plan run to its end.\<close>

definition one_block_done :: Execution where
  "one_block_done =
     run_events sample_run sample_job [(execution_request, ''t1''), (block_boundary, ''t2'')]"

definition started_job :: Execution where
  "started_job = step sample_run sample_job (execution_request, ''t1'')"

definition finished_job :: Execution where
  "finished_job =
     run_events sample_run (submitJob ''j0'' ''w0'' ''t0'' [])
       [(execution_request, ''t1''), (block_boundary, ''t2'')]"

text \<open>
  Sample inputs for the executors: a condition on the column \<open>company\<close> that cannot be
  evaluated on a row without that column, a service that fails on records without a name,
  and a table of three leads.
\<close>

definition sample_compile :: "string \<Rightarrow> config_error + (row \<Rightarrow> bool option)" where
  "sample_compile condition =
     (if condition = [] then Inl MalformedPredicate
      else Inr (\<lambda>r. case map_of r ''company'' of
                       None \<Rightarrow> None
                     | Some v \<Rightarrow> Some (v = JStr condition)))"

definition sample_service :: "Request \<Rightarrow> row \<Rightarrow> outcome" where
  "sample_service request r =
     (case map_of r ''name'' of
        None \<Rightarrow> enrichment_error ''no name''
      | Some v \<Rightarrow> enriched [(''email'', JStr ''found'')])"

definition leads :: table where
  "leads =
     [[(''name'', JStr ''Ann''), (''company'', JStr ''Acme'')],
      [(''name'', JStr ''Bob'')],
      [(''company'', JStr ''Acme'')]]"

section \<open>Double arithmetic\<close>

lemma pow2_powr: "pow2 e = 2 powr (real_of_int e)"
  by (auto simp: pow2_def powr_realpow[symmetric] powr_minus divide_inverse)

lemma pow2_pos: "0 < pow2 e"
  by (simp add: pow2_powr)

lemma pow2_mono: "e \<le> e' \<Longrightarrow> pow2 e \<le> pow2 e'"
  by (simp add: pow2_powr)

lemma pow2_less_iff: "pow2 e < pow2 e' \<longleftrightarrow> e < e'"
  by (simp add: pow2_powr)

lemma pow2_add: "pow2 (e + e') = pow2 e * pow2 e'"
  by (simp add: pow2_powr powr_add)

lemma binade_bounds:
  assumes "0 < a"
  shows "pow2 (binade a) \<le> a \<and> a < pow2 (binade a + 1)"
proof (cases "1 \<le> a")
  case True
  then have pos: "0 < \<lfloor>a\<rfloor>"
    by simp
  let ?b = "bitlen \<lfloor>a\<rfloor>"
  from bitlen_bounds[OF pos] have b: "2 ^ nat (?b - 1) \<le> \<lfloor>a\<rfloor>" "\<lfloor>a\<rfloor> < 2 ^ nat ?b"
    by simp_all
  have b1: "1 \<le> ?b"
    using pos by (simp add: bitlen_alt_def)
  from b(1) have "real_of_int (2 ^ nat (?b - 1)) \<le> a"
    by (simp add: le_floor_iff)
  moreover from b(2) have "a < real_of_int (2 ^ nat ?b)"
    by (simp add: floor_less_iff)
  ultimately show ?thesis
    using True b1 by (simp add: binade_def pow2_def)
next
  case False
  with assms have a1: "a < 1" "1 < 1 / a"
    by simp_all
  let ?m = "\<lceil>1 / a\<rceil>"
  have m: "2 \<le> ?m"
    using a1(2) by (simp add: le_ceiling_iff)
  then have pos: "0 < ?m - 1"
    by simp
  let ?k = "bitlen (?m - 1)"
  from bitlen_bounds[OF pos] have b: "2 ^ nat (?k - 1) \<le> ?m - 1" "?m - 1 < 2 ^ nat ?k"
    by simp_all
  have k1: "1 \<le> ?k"
    using pos by (simp add: bitlen_alt_def)
  from b(2) have "?m \<le> 2 ^ nat ?k"
    by simp
  then have "1 / a \<le> 2 ^ nat ?k"
    by (simp add: ceiling_le_iff)
  then have lo: "1 / 2 ^ nat ?k \<le> a"
    using assms by (simp add: field_simps)
  from b(1) have "2 ^ nat (?k - 1) < ?m"
    by simp
  then have "2 ^ nat (?k - 1) < 1 / a"
    by (simp add: less_ceiling_iff)
  then have hi: "a < 1 / 2 ^ nat (?k - 1)"
    using assms by (simp add: field_simps)
  have e: "binade a = - ?k"
    using False by (simp add: binade_def)
  have "pow2 (- ?k) = 1 / 2 ^ nat ?k"
    using k1 by (simp add: pow2_def)
  moreover have "pow2 (- ?k + 1) = 1 / 2 ^ nat (?k - 1)"
    using k1 by (auto simp: pow2_def)
  ultimately show ?thesis
    using lo hi e by simp
qed

lemma round_half_even_bounds: "\<lfloor>t\<rfloor> \<le> round_half_even t \<and> round_half_even t \<le> \<lceil>t\<rceil>"
proof (cases "t - of_int \<lfloor>t\<rfloor> < 1 / 2")
  case True
  then have "round_half_even t = \<lfloor>t\<rfloor>"
    by (simp add: round_half_even_def)
  then show ?thesis
    by (simp add: floor_le_ceiling)
next
  case False
  with of_int_floor_le[of t] have "of_int \<lfloor>t\<rfloor> < t"
    by linarith
  then have "\<lfloor>t\<rfloor> < \<lceil>t\<rceil>"
    by (simp add: less_ceiling_iff)
  moreover have "round_half_even t = \<lfloor>t\<rfloor> \<or> round_half_even t = \<lfloor>t\<rfloor> + 1"
    by (simp add: round_half_even_def Let_def)
  ultimately show ?thesis
    by auto
qed

lemma round_half_even_int: "round_half_even (of_int k) = k"
  by (simp add: round_half_even_def)

lemma to_double_abs:
  "\<bar>to_double v\<bar> = (if v = 0 then 0 else ulp \<bar>v\<bar> * of_int (round_half_even (\<bar>v\<bar> / ulp \<bar>v\<bar>)))"
proof (cases "v = 0")
  case True
  then show ?thesis by (simp add: to_double_def)
next
  case False
  have u: "0 < ulp \<bar>v\<bar>"
    by (simp add: ulp_def pow2_pos)
  then have "0 \<le> \<bar>v\<bar> / ulp \<bar>v\<bar>"
    by simp
  then have "0 \<le> \<lfloor>\<bar>v\<bar> / ulp \<bar>v\<bar>\<rfloor>"
    by simp
  with round_half_even_bounds[of "\<bar>v\<bar> / ulp \<bar>v\<bar>"]
  have "0 \<le> round_half_even (\<bar>v\<bar> / ulp \<bar>v\<bar>)"
    by linarith
  with u False show ?thesis
    by (simp add: to_double_def abs_mult)
qed

text \<open>
  Rounding at a bound \<open>c\<close> between 128 and 256 that is a multiple of 2^-45, as 140 and 220 are:
  a value of magnitude at least \<open>c\<close> is not rounded below \<open>c\<close>, and a value of magnitude at
  most \<open>c\<close> - 2^-45 is rounded below \<open>c\<close>.
\<close>

lemma to_double_ge:
  assumes c: "128 \<le> c" "c < 256" "c * 2 ^ 45 = of_int N" and v: "c \<le> \<bar>v\<bar>"
  shows "c \<le> \<bar>to_double v\<bar>"
proof -
  let ?a = "\<bar>v\<bar>"
  have a: "0 < ?a" "v \<noteq> 0"
    using c v by auto
  from binade_bounds[OF a(1)] have b: "pow2 (binade ?a) \<le> ?a" "?a < pow2 (binade ?a + 1)"
    by simp_all
  have "pow2 7 \<le> ?a"
    using c v by (simp add: pow2_def)
  with b(2) have "pow2 7 < pow2 (binade ?a + 1)"
    by simp
  then have e: "7 \<le> binade ?a"
    by (simp add: pow2_less_iff)
  then have u: "ulp ?a = pow2 (binade ?a - 52)"
    by (simp add: ulp_def max_def)
  have upos: "0 < ulp ?a"
    by (simp add: u pow2_pos)
  show ?thesis
  proof (cases "binade ?a = 7")
    case True
    then have u7: "ulp ?a = 1 / 2 ^ 45"
      by (simp add: u pow2_def)
    have "of_int N \<le> ?a / ulp ?a"
      using v c(3)[symmetric] by (simp add: u7)
    then have "N \<le> \<lfloor>?a / ulp ?a\<rfloor>"
      by (simp add: le_floor_iff)
    with round_half_even_bounds[of "?a / ulp ?a"] have "N \<le> round_half_even (?a / ulp ?a)"
      by linarith
    then have "of_int N \<le> (of_int (round_half_even (?a / ulp ?a)) :: real)"
      by simp
    then have "c * 2 ^ 45 \<le> of_int (round_half_even (?a / ulp ?a))"
      by (simp only: c(3))
    then show ?thesis
      using a(2) by (simp add: to_double_abs u7 field_simps)
  next
    case False
    with e have e8: "8 \<le> binade ?a"
      by simp
    have "pow2 (binade ?a) = pow2 (binade ?a - 52) * pow2 52"
      using pow2_add[of "binade ?a - 52" 52] by simp
    then have p: "pow2 (binade ?a) = ulp ?a * 2 ^ 52"
      by (simp add: u pow2_def)
    with b(1) have "2 ^ 52 \<le> ?a / ulp ?a"
      using upos by (simp add: field_simps)
    then have "of_int (2 ^ 52) \<le> ?a / ulp ?a"
      by simp
    then have "2 ^ 52 \<le> \<lfloor>?a / ulp ?a\<rfloor>"
      by (subst le_floor_iff)
    with round_half_even_bounds[of "?a / ulp ?a"] have "2 ^ 52 \<le> round_half_even (?a / ulp ?a)"
      by linarith
    then have "(2 ^ 52 :: real) \<le> of_int (round_half_even (?a / ulp ?a))"
      by (metis of_int_le_iff of_int_numeral of_int_power)
    then have "ulp ?a * 2 ^ 52 \<le> ulp ?a * of_int (round_half_even (?a / ulp ?a))"
      using upos by simp
    moreover have "pow2 8 \<le> pow2 (binade ?a)"
      using e8 by (rule pow2_mono)
    ultimately have "pow2 8 \<le> ulp ?a * of_int (round_half_even (?a / ulp ?a))"
      using p by simp
    then show ?thesis
      using a(2) c(2) by (simp add: to_double_abs pow2_def)
  qed
qed

lemma to_double_less:
  assumes c: "128 < c" "c < 256" "c * 2 ^ 45 = of_int N" and v: "\<bar>v\<bar> \<le> c - 1 / 2 ^ 45"
  shows "\<bar>to_double v\<bar> < c"
proof (cases "v = 0")
  case True
  then show ?thesis
    using c by (simp add: to_double_def)
next
  case False
  let ?a = "\<bar>v\<bar>"
  have a: "0 < ?a"
    using False by simp
  from binade_bounds[OF a] have b: "pow2 (binade ?a) \<le> ?a" "?a < pow2 (binade ?a + 1)"
    by simp_all
  have "?a < pow2 8"
    using c v by (simp add: pow2_def)
  with b(1) have "pow2 (binade ?a) < pow2 8"
    by simp
  then have e: "binade ?a \<le> 7"
    by (simp add: pow2_less_iff)
  have upos: "0 < ulp ?a"
    by (simp add: ulp_def pow2_pos)
  show ?thesis
  proof (cases "binade ?a = 7")
    case True
    then have u7: "ulp ?a = 1 / 2 ^ 45"
      by (simp add: ulp_def pow2_def)
    have "?a / ulp ?a \<le> of_int (N - 1)"
      using v c(3)[symmetric] by (simp add: u7 field_simps)
    then have "\<lceil>?a / ulp ?a\<rceil> \<le> N - 1"
      by (rule ceiling_le)
    with round_half_even_bounds[of "?a / ulp ?a"] have "round_half_even (?a / ulp ?a) \<le> N - 1"
      by linarith
    then have "(of_int (round_half_even (?a / ulp ?a)) :: real) \<le> of_int (N - 1)"
      by (subst of_int_le_iff)
    then have "of_int (round_half_even (?a / ulp ?a)) \<le> c * 2 ^ 45 - 1"
      unfolding c(3) by simp
    then show ?thesis
      using False by (simp add: to_double_abs u7 field_simps)
  next
    case ne: False
    define E where "E = max (binade ?a) (- 1022)"
    have E: "E \<le> 6" "binade ?a \<le> E"
      using e ne by (simp_all add: E_def)
    have u: "ulp ?a = pow2 (E - 52)"
      by (simp add: ulp_def E_def)
    have "pow2 (E + 1) = pow2 (E - 52) * pow2 53"
      using pow2_add[of "E - 52" 53] by (simp add: add.commute)
    then have p: "pow2 (E + 1) = ulp ?a * 2 ^ 53"
      by (simp add: u pow2_def)
    have "pow2 (binade ?a + 1) \<le> pow2 (E + 1)"
      using E(2) by (intro pow2_mono) simp
    with b(2) p have "?a < ulp ?a * 2 ^ 53"
      by simp
    then have "?a / ulp ?a \<le> of_int (2 ^ 53)"
      using upos by (simp add: field_simps)
    then have "\<lceil>?a / ulp ?a\<rceil> \<le> 2 ^ 53"
      by (subst ceiling_le_iff)
    with round_half_even_bounds[of "?a / ulp ?a"] have "round_half_even (?a / ulp ?a) \<le> 2 ^ 53"
      by linarith
    then have "(of_int (round_half_even (?a / ulp ?a)) :: real) \<le> 2 ^ 53"
      by (metis of_int_le_iff of_int_numeral of_int_power)
    then have "ulp ?a * of_int (round_half_even (?a / ulp ?a)) \<le> ulp ?a * 2 ^ 53"
      using upos by simp
    moreover have "pow2 (E + 1) \<le> pow2 7"
      using E(1) by (intro pow2_mono) simp
    ultimately have "ulp ?a * of_int (round_half_even (?a / ulp ?a)) \<le> pow2 7"
      using p by simp
    then show ?thesis
      using False c(1) by (simp add: to_double_abs pow2_def)
  qed
qed

lemma to_double_int:
  assumes "\<bar>n\<bar> < 2 ^ 53"
  shows "to_double (of_int n) = of_int n"
proof (cases "n = 0")
  case True
  then show ?thesis by (simp add: to_double_def)
next
  case False
  let ?a = "\<bar>real_of_int n\<bar>"
  have a: "1 \<le> ?a" "0 < ?a"
    using False by (simp_all add: abs_if)
  from binade_bounds[OF a(2)] have b: "pow2 (binade ?a) \<le> ?a" "?a < pow2 (binade ?a + 1)"
    by simp_all
  have "pow2 0 \<le> ?a"
    using a(1) by (simp add: pow2_def)
  with b(2) have "pow2 0 < pow2 (binade ?a + 1)"
    by simp
  then have e0: "0 \<le> binade ?a"
    by (simp add: pow2_less_iff)
  have "?a < pow2 53"
  proof -
    have "real_of_int \<bar>n\<bar> < real_of_int (2 ^ 53)"
      using assms by (subst of_int_less_iff)
    then show ?thesis
      by (simp add: pow2_def)
  qed
  with b(1) have "pow2 (binade ?a) < pow2 53"
    by simp
  then have e52: "binade ?a \<le> 52"
    by (simp add: pow2_less_iff)
  define k where "k = nat (52 - binade ?a)"
  have u: "ulp ?a = 1 / 2 ^ k"
  proof (cases "binade ?a = 52")
    case True
    then show ?thesis by (simp add: ulp_def pow2_def k_def)
  next
    case False
    with e0 e52 show ?thesis
      by (simp add: ulp_def pow2_def k_def max_def)
  qed
  have "?a / ulp ?a = of_int (\<bar>n\<bar> * 2 ^ k)"
    by (simp add: u)
  then have "round_half_even (?a / ulp ?a) = \<bar>n\<bar> * 2 ^ k"
    by (simp only: round_half_even_int)
  then have "ulp ?a * of_int (round_half_even (?a / ulp ?a)) = ?a"
    by (simp add: u)
  then have "to_double (of_int n) = sgn (real_of_int n) * ?a"
    using False by (simp add: to_double_def)
  then show ?thesis
    by (simp add: sgn_real_def abs_if)
qed


lemma to_double_integer: "v \<in> \<int> \<Longrightarrow> \<bar>v\<bar> < 2 ^ 53 \<Longrightarrow> to_double v = v"
proof -
  assume "v \<in> \<int>" and b: "\<bar>v\<bar> < 2 ^ 53"
  then obtain n where n: "v = of_int n"
    by (auto elim: Ints_cases)
  with b have "real_of_int \<bar>n\<bar> < real_of_int (2 ^ 53)"
    by simp
  then have "\<bar>n\<bar> < 2 ^ 53"
    by (subst (asm) of_int_less_iff)
  then show ?thesis
    unfolding n by (rule to_double_int)
qed



section \<open>The free-position search of addBlock\<close>

lemma to_double_bounds:
  "220 \<le> \<bar>v\<bar> \<Longrightarrow> 220 \<le> \<bar>to_double v\<bar>"
  "140 \<le> \<bar>v\<bar> \<Longrightarrow> 140 \<le> \<bar>to_double v\<bar>"
  "\<bar>v\<bar> \<le> 220 - 1 / 2 ^ 45 \<Longrightarrow> \<bar>to_double v\<bar> < 220"
  "\<bar>v\<bar> \<le> 140 - 1 / 2 ^ 45 \<Longrightarrow> \<bar>to_double v\<bar> < 140"
proof -
  have c220: "(220 :: real) * 2 ^ 45 = of_int (220 * 2 ^ 45)"
    and c140: "(140 :: real) * 2 ^ 45 = of_int (140 * 2 ^ 45)"
    by simp_all
  show "220 \<le> \<bar>v\<bar> \<Longrightarrow> 220 \<le> \<bar>to_double v\<bar>"
    using to_double_ge[OF _ _ c220, of v] by simp
  show "140 \<le> \<bar>v\<bar> \<Longrightarrow> 140 \<le> \<bar>to_double v\<bar>"
    using to_double_ge[OF _ _ c140, of v] by simp
  show "\<bar>v\<bar> \<le> 220 - 1 / 2 ^ 45 \<Longrightarrow> \<bar>to_double v\<bar> < 220"
    using to_double_less[OF _ _ c220, of v] by simp
  show "\<bar>v\<bar> \<le> 140 - 1 / 2 ^ 45 \<Longrightarrow> \<bar>to_double v\<bar> < 140"
    using to_double_less[OF _ _ c140, of v] by simp
qed

lemma overlaps_close:
  assumes "overlaps p x y"
  shows "\<bar>pos_x p - x\<bar> < 220 \<and> \<bar>pos_y p - y\<bar> < 140"
  using assms to_double_bounds(1)[of "pos_x p - x"] to_double_bounds(2)[of "pos_y p - y"]
  unfolding overlaps_def by linarith


text \<open>
  The loop returns when no existing position lies above 2^52: then every \<open>y\<close> it reaches is
  a whole number below 2^53, so that its additions are exact. Each pass either moves \<open>x\<close>
  one column to the right or moves \<open>y\<close> one row down, and a pass is only made while \<open>y\<close> is
  less than 140 above some existing position.
\<close>

lemma find_free_position_returns:
  assumes bound: "\<forall>p \<in> set ps. pos_y p \<le> 2 ^ 52" and grid: "on_grid x y"
  shows "\<exists>x' y'. find_free_position ps x y = Some (x', y') \<and>
           \<not> list_ex (\<lambda>p. overlaps p x' y') ps \<and> on_grid x' y'"
proof -
  define M where "M = Max (set (map pos_y ps))"
  define R :: "((real \<times> real) \<times> (real \<times> real)) set" where
    "R = measures [\<lambda>(x, y). nat \<lceil>(M + 140 - y) / 160\<rceil>, \<lambda>(x, y). nat \<lceil>(800 - x) / 250\<rceil>]"
  have "wf R"
    by (simp add: R_def)
  then show ?thesis
    using grid
  proof (induction "(x, y)" arbitrary: x y rule: wf_induct_rule)
    case (less x y)
    show ?case
    proof (cases "list_ex (\<lambda>p. overlaps p x y) ps")
      case False
      then have "find_free_position ps x y = Some (x, y)"
        by (subst find_free_position.simps) simp
      with False less.prems show ?thesis
        by blast
    next
      case True
      then obtain p where p: "p \<in> set ps" "overlaps p x y"
        by (auto simp: list_ex_iff)
      from overlaps_close[OF p(2)] have near: "y < pos_y p + 140"
        by (simp add: abs_less_iff)
      have "pos_y p \<le> M"
        using p(1) by (simp add: M_def)
      with near have d: "0 < M + 140 - y"
        by simp
      from near bound p(1) have small: "y < 2 ^ 52 + 140"
        by fastforce
      from less.prems obtain k :: nat where k: "y = 200 + 160 * real k"
        and col: "x = 200 \<or> x = 450 \<or> x = 700"
        by (auto simp: on_grid_def)
      have "y + 160 = of_int (200 + 160 * (int k + 1))"
        by (simp add: k)
      then have "y + 160 \<in> \<int>"
        by (simp only: Ints_of_int)
      moreover have "\<bar>y + 160\<bar> < 2 ^ 53"
        using small k by simp
      ultimately have exact_y: "to_double (y + 160) = y + 160"
        by (rule to_double_integer)
      have exact_x: "to_double (x + 250) = x + 250"
        using col by (auto simp: to_double_integer)
      show ?thesis
      proof (cases "x + 250 > 800")
        case wrap: True
        define h where "h = M + 140 - y"
        have "\<lceil>(h - 160) / 160\<rceil> = \<lceil>h / 160\<rceil> - 1"
          by (simp add: diff_divide_distrib)
        moreover have "0 < \<lceil>h / 160\<rceil>"
          using d by (simp add: h_def ceiling_less_iff)
        ultimately have "nat \<lceil>(h - 160) / 160\<rceil> < nat \<lceil>h / 160\<rceil>"
          by simp
        then have "((200, y + 160), (x, y)) \<in> R"
          by (simp add: R_def h_def algebra_simps)
        moreover have "y + 160 = 200 + 160 * real (Suc k)"
          by (simp add: k)
        then have "on_grid 200 (y + 160)"
          unfolding on_grid_def by blast
        ultimately obtain x' y' where
          "find_free_position ps 200 (y + 160) = Some (x', y')"
          "\<not> list_ex (\<lambda>p. overlaps p x' y') ps" "on_grid x' y'"
          using less.hyps by blast
        moreover have "find_free_position ps x y = find_free_position ps 200 (y + 160)"
          using True wrap by (subst find_free_position.simps) (simp add: exact_x exact_y)
        ultimately show ?thesis
          by auto
      next
        case nowrap: False
        define g where "g = 800 - x"
        have "250 \<le> g"
          using nowrap by (simp add: g_def)
        then have "0 < \<lceil>g / 250\<rceil>"
          by (simp add: ceiling_less_iff)
        moreover have "\<lceil>(g - 250) / 250\<rceil> = \<lceil>g / 250\<rceil> - 1"
          by (simp add: diff_divide_distrib)
        ultimately have "nat \<lceil>(g - 250) / 250\<rceil> < nat \<lceil>g / 250\<rceil>"
          by simp
        then have "((x + 250, y), (x, y)) \<in> R"
          by (simp add: R_def g_def algebra_simps)
        moreover have "on_grid (x + 250) y"
          using nowrap col less.prems by (auto simp: on_grid_def)
        ultimately obtain x' y' where
          "find_free_position ps (x + 250) y = Some (x', y')"
          "\<not> list_ex (\<lambda>p. overlaps p x' y') ps" "on_grid x' y'"
          using less.hyps by blast
        moreover have "find_free_position ps x y = find_free_position ps (x + 250) y"
          using True nowrap by (subst find_free_position.simps) (simp add: exact_x)
        ultimately show ?thesis
          by auto
      qed
    qed
  qed
qed


lemma addBlock_connections:
  "addBlock defaults uuid blockType pos st = Some added \<Longrightarrow>
   connections (fst added) = connections st \<and> connectingFrom (fst added) = connectingFrom st \<and>
   isConnecting (fst added) = isConnecting st"
  by (auto simp: addBlock_def place_block_def Let_def split: if_splits option.splits)



lemma three_blocks_positions:
  "map position (blocks three_blocks) =
     [\<lparr>pos_x = 200, pos_y = 200\<rparr>, \<lparr>pos_x = 450, pos_y = 200\<rparr>, \<lparr>pos_x = 700, pos_y = 200\<rparr>]"
  by (simp add: three_blocks_def place_block_def new_block_def initial_builder_def)

lemma fourth_position:
  "find_free_position (map position (blocks three_blocks)) 200 200 = Some (200, 360)"
proof -
  let ?ps = "map position (blocks three_blocks)"
  have "find_free_position ?ps 200 200 = find_free_position ?ps 450 200"
    by (subst find_free_position.simps)
       (simp add: three_blocks_positions overlaps_def to_double_integer)
  also have "\<dots> = find_free_position ?ps 700 200"
    by (subst find_free_position.simps)
       (simp add: three_blocks_positions overlaps_def to_double_integer)
  also have "\<dots> = find_free_position ?ps 200 360"
    by (subst find_free_position.simps)
       (simp add: three_blocks_positions overlaps_def to_double_integer)
  also have "\<dots> = Some (200, 360)"
    by (subst find_free_position.simps)
       (simp add: three_blocks_positions overlaps_def to_double_integer)
  finally show ?thesis .
qed


section \<open>Connections\<close>

lemma find_pair_None:
  "find (\<lambda>conn. source_block_id conn = s \<and> target_block_id conn = t) conns = None
     \<longleftrightarrow> \<not> has_pair s t conns"
  by (auto simp: has_pair_def find_None_iff list_ex_iff)

lemma find_pair_Some:
  assumes "has_pair s t conns"
  shows "\<exists>c. find (\<lambda>conn. source_block_id conn = s \<and> target_block_id conn = t) conns = Some c"
  using assms find_pair_None[of s t conns]
  by (cases "find (\<lambda>conn. source_block_id conn = s \<and> target_block_id conn = t) conns") auto

lemma connectBlocks_result:
  "connectBlocks uuid s t st =
     (if has_pair s t (connections st) then (st, toast_error ''Connection already exists'')
      else if s = t then (st, toast_error ''Cannot connect block to itself'')
      else (st\<lparr>connections := connections st @
                 [\<lparr>connection_id = uuid, source_block_id = s, target_block_id = t\<rparr>]\<rparr>,
            toast_success ''Blocks connected''))"
proof (cases "has_pair s t (connections st)")
  case True
  from find_pair_Some[OF this] show ?thesis
    using True by (auto simp: connectBlocks_def)
next
  case False
  then have "find (\<lambda>conn. source_block_id conn = s \<and> target_block_id conn = t)
               (connections st) = None"
    by (simp add: find_pair_None)
  with False show ?thesis
    by (simp add: connectBlocks_def)
qed

lemma finishConnection_result:
  assumes "connectingFrom st = Some s" "s \<noteq> []" "isConnecting st"
  shows "finishConnection uuid t st =
     (if has_pair s t (connections st)
      then (st\<lparr>connectingFrom := None, isConnecting := False\<rparr>,
            toast_error ''Connection already exists'')
      else if s = t
      then (st\<lparr>connectingFrom := None, isConnecting := False\<rparr>,
            toast_error ''Cannot connect block to itself'')
      else (st\<lparr>connections := connections st @
                 [\<lparr>connection_id = uuid, source_block_id = s, target_block_id = t\<rparr>],
               connectingFrom := None, isConnecting := False\<rparr>,
            toast_success ''Blocks connected''))"
proof (cases "has_pair s t (connections st)")
  case True
  from find_pair_Some[OF this] show ?thesis
    using True assms by (auto simp: finishConnection_def)
next
  case False
  then have "find (\<lambda>conn. source_block_id conn = s \<and> target_block_id conn = t)
               (connections st) = None"
    by (simp add: find_pair_None)
  with False assms show ?thesis
    by (simp add: finishConnection_def)
qed

lemma finishConnection_idle:
  "connectingFrom st = None \<or> connectingFrom st = Some [] \<or> \<not> isConnecting st \<Longrightarrow>
   finishConnection uuid t st = (st, no_toast)"
  by (auto simp: finishConnection_def split: option.splits)

lemma conn_inv_append:
  "conn_inv cs \<Longrightarrow> s \<noteq> t \<Longrightarrow> \<not> has_pair s t cs \<Longrightarrow>
   conn_inv (cs @ [\<lparr>connection_id = uuid, source_block_id = s, target_block_id = t\<rparr>])"
  by (auto simp: conn_inv_def no_self_loop_def no_duplicate_pair_def has_pair_def list_ex_iff
      edge_def list_all_iff)

lemma conn_inv_filter: "conn_inv cs \<Longrightarrow> conn_inv (filter P cs)"
  by (auto simp: conn_inv_def no_self_loop_def no_duplicate_pair_def list_all_iff
      distinct_map_filter)

lemma reachable_conn_inv: "reachable st \<Longrightarrow> conn_inv (connections st)"
proof (induction rule: reachable.induct)
  case reach_init
  then show ?case
    by (simp add: initial_builder_def conn_inv_def no_self_loop_def no_duplicate_pair_def)
next
  case (reach_add st defaults uuid blockType pos added)
  then show ?case by (simp add: addBlock_connections)
next
  case (reach_add_random st random1 random2 uuid blockType)
  then show ?case by (simp add: addBlock_random_def place_block_def Let_def)
next
  case (reach_remove st blockId)
  then show ?case by (simp add: removeBlock_def conn_inv_filter)
next
  case (reach_update st blockId updates)
  then show ?case by (simp add: updateBlock_def)
next
  case (reach_connect st uuid sourceId targetId)
  then show ?case by (simp add: connectBlocks_result conn_inv_append)
next
  case (reach_start st blockId)
  then show ?case by (simp add: startConnection_def)
next
  case (reach_finish st uuid targetId)
  show ?case
  proof (cases "connectingFrom st = None \<or> connectingFrom st = Some [] \<or> \<not> isConnecting st")
    case True
    then show ?thesis
      using reach_finish.IH by (simp add: finishConnection_idle)
  next
    case False
    then obtain s where "connectingFrom st = Some s" "s \<noteq> []" "isConnecting st"
      by auto
    then show ?thesis
      using reach_finish.IH by (simp add: finishConnection_result conn_inv_append)
  qed
next
  case (reach_cancel st)
  then show ?case by (simp add: cancelConnection_def)
next
  case (reach_remove_connection st connectionId)
  then show ?case by (simp add: removeConnection_def conn_inv_filter)
qed

text \<open>
  Claim C2. For every connection list and every pair (sourceId, targetId), connecting
  leaves the list unchanged when sourceId equals targetId or when a connection with the
  same ordered pair exists, and otherwise appends exactly one connection with that source
  and target. This holds for \<open>connectBlocks\<close> and, while a connection is being drawn from
  sourceId, for \<open>finishConnection\<close>. Hence no state the builder reaches has a self-loop or
  two connections with the same ordered pair.
\<close>

theorem connect_appends_or_leaves:
  "connections (fst (connectBlocks uuid s t st)) =
     (if s = t \<or> has_pair s t (connections st) then connections st
      else connections st @
           [\<lparr>connection_id = uuid, source_block_id = s, target_block_id = t\<rparr>]) \<and>
   (connectingFrom st = Some s \<and> s \<noteq> [] \<and> isConnecting st \<longrightarrow>
    connections (fst (finishConnection uuid t st)) =
      (if s = t \<or> has_pair s t (connections st) then connections st
       else connections st @
            [\<lparr>connection_id = uuid, source_block_id = s, target_block_id = t\<rparr>])) \<and>
   (reachable st \<longrightarrow>
      no_self_loop (connections st) \<and> no_duplicate_pair (connections st))"
  using reachable_conn_inv[of st]
  by (simp add: connectBlocks_result finishConnection_result conn_inv_def)

lemma reachable_a_to_b: "reachable a_to_b"
  unfolding a_to_b_def by (intro reachable.intros)

lemma a_to_b_connections:
  "connections a_to_b = [\<lparr>connection_id = ''c1'', source_block_id = ''A'', target_block_id = ''B''\<rparr>]"
  by (simp add: a_to_b_def connectBlocks_def initial_builder_def)

theorem connect_appends_or_leaves_witness:
  "connections (fst (connectBlocks ''c2'' ''A'' ''B'' a_to_b)) = connections a_to_b \<and>
   connections (fst (connectBlocks ''c2'' ''B'' ''B'' a_to_b)) = connections a_to_b \<and>
   connections (fst (connectBlocks ''c2'' ''B'' ''C'' a_to_b)) =
     connections a_to_b @
       [\<lparr>connection_id = ''c2'', source_block_id = ''B'', target_block_id = ''C''\<rparr>] \<and>
   connections (fst (finishConnection ''c2'' ''C'' (fst (startConnection ''B'' a_to_b)))) =
     connections a_to_b @
       [\<lparr>connection_id = ''c2'', source_block_id = ''B'', target_block_id = ''C''\<rparr>] \<and>
   reachable a_to_b \<and> no_self_loop (connections a_to_b) \<and> no_duplicate_pair (connections a_to_b)"
  using connect_appends_or_leaves[of "''c2''" "''A''" "''B''" a_to_b]
    connect_appends_or_leaves[of "''c2''" "''B''" "''B''" a_to_b]
    connect_appends_or_leaves[of "''c2''" "''B''" "''C''" a_to_b]
    connect_appends_or_leaves[of "''c2''" "''B''" "''C''" "fst (startConnection ''B'' a_to_b)"]
    reachable_a_to_b
  by (simp add: a_to_b_connections has_pair_def startConnection_def)

section \<open>Cycles\<close>

text \<open>
  Claim C1, as stated, fails: after connecting A to B, connecting B back to A is accepted
  with the toast "Blocks connected", by \<open>connectBlocks\<close> and by \<open>finishConnection\<close> alike;
  the connection is added, and the graph has the cycle A, B, A.
\<close>

theorem connect_back_is_accepted:
  "connectBlocks ''c2'' ''B'' ''A'' (fst (connectBlocks ''c1'' ''A'' ''B'' initial_builder)) =
     (initial_builder\<lparr>connections :=
        [\<lparr>connection_id = ''c1'', source_block_id = ''A'', target_block_id = ''B''\<rparr>,
         \<lparr>connection_id = ''c2'', source_block_id = ''B'', target_block_id = ''A''\<rparr>]\<rparr>,
      toast_success ''Blocks connected'') \<and>
   finishConnection ''c2'' ''A'' (fst (startConnection ''B''
       (fst (finishConnection ''c1'' ''B'' (fst (startConnection ''A'' initial_builder)))))) =
     (initial_builder\<lparr>connections :=
        [\<lparr>connection_id = ''c1'', source_block_id = ''A'', target_block_id = ''B''\<rparr>,
         \<lparr>connection_id = ''c2'', source_block_id = ''B'', target_block_id = ''A''\<rparr>]\<rparr>,
      toast_success ''Blocks connected'') \<and>
   \<not> acyclic (edges
       [\<lparr>connection_id = ''c1'', source_block_id = ''A'', target_block_id = ''B''\<rparr>,
        \<lparr>connection_id = ''c2'', source_block_id = ''B'', target_block_id = ''A''\<rparr>])"
proof -
  have "(''A'', ''B'') \<in> {(''A'', ''B''), (''B'', ''A'')}" "(''B'', ''A'') \<in> {(''A'', ''B''), (''B'', ''A'')}"
    by simp_all
  then have "(''A'', ''A'') \<in> {(''A'', ''B''), (''B'', ''A'')}\<^sup>+"
    by (meson trancl.intros)
  then have "\<not> acyclic {(''A'', ''B''), (''B'', ''A'')}"
    unfolding acyclic_def by blast
  then show ?thesis
    by (simp add: connectBlocks_def finishConnection_def startConnection_def initial_builder_def
        edges_def edge_def)
qed

text \<open>
  Claim C1, amended. The only cycle check of the builder is the one on self-loops: a
  connection from a block to itself is rejected with an error toast and no connection is
  added; every connection between two different blocks that is not yet present is
  added, whether or not it closes a cycle. This holds for \<open>connectBlocks\<close> and, while a
  connection is being drawn, for \<open>finishConnection\<close>. So the graph of a reachable state
  has no cycle of length one.
\<close>

theorem connect_rejects_only_self_loops:
  "connectBlocks uuid s s st \<in> {(st, toast_error ''Cannot connect block to itself''),
                                (st, toast_error ''Connection already exists'')} \<and>
   (s \<noteq> t \<and> \<not> has_pair s t (connections st) \<longrightarrow>
      connectBlocks uuid s t st =
        (st\<lparr>connections := connections st @
             [\<lparr>connection_id = uuid, source_block_id = s, target_block_id = t\<rparr>]\<rparr>,
         toast_success ''Blocks connected'')) \<and>
   (connectingFrom st = Some s \<and> s \<noteq> [] \<and> isConnecting st \<longrightarrow>
      finishConnection uuid s st \<in>
        {(st\<lparr>connectingFrom := None, isConnecting := False\<rparr>,
          toast_error ''Cannot connect block to itself''),
         (st\<lparr>connectingFrom := None, isConnecting := False\<rparr>,
          toast_error ''Connection already exists'')} \<and>
      (s \<noteq> t \<and> \<not> has_pair s t (connections st) \<longrightarrow>
         finishConnection uuid t st =
           (st\<lparr>connections := connections st @
                [\<lparr>connection_id = uuid, source_block_id = s, target_block_id = t\<rparr>],
              connectingFrom := None, isConnecting := False\<rparr>,
            toast_success ''Blocks connected''))) \<and>
   (reachable st \<longrightarrow> irrefl (edges (connections st)))"
proof -
  have "reachable st \<Longrightarrow> irrefl (edges (connections st))"
    using reachable_conn_inv[of st]
    by (auto simp: conn_inv_def no_self_loop_def list_all_iff irrefl_def edges_def edge_def)
  then show ?thesis
    by (auto simp: connectBlocks_result finishConnection_result)
qed

theorem connect_rejects_only_self_loops_witness:
  "connectBlocks ''c2'' ''B'' ''B'' a_to_b = (a_to_b, toast_error ''Cannot connect block to itself'') \<and>
   connectBlocks ''c2'' ''B'' ''A'' a_to_b =
     (a_to_b\<lparr>connections := connections a_to_b @
         [\<lparr>connection_id = ''c2'', source_block_id = ''B'', target_block_id = ''A''\<rparr>]\<rparr>,
      toast_success ''Blocks connected'') \<and>
   finishConnection ''c2'' ''B'' (fst (startConnection ''B'' a_to_b)) =
     (a_to_b, toast_error ''Cannot connect block to itself'') \<and>
   connections (fst (finishConnection ''c2'' ''A'' (fst (startConnection ''B'' a_to_b)))) =
     connections a_to_b @
         [\<lparr>connection_id = ''c2'', source_block_id = ''B'', target_block_id = ''A''\<rparr>] \<and>
   reachable a_to_b \<and> irrefl (edges (connections a_to_b))"
  using connect_rejects_only_self_loops[of "''c2''" "''B''" a_to_b "''A''"]
    connect_rejects_only_self_loops[of "''c2''" "''B''" "fst (startConnection ''B'' a_to_b)" "''A''"]
    reachable_a_to_b
  by (simp add: a_to_b_connections has_pair_def connectBlocks_def startConnection_def
      a_to_b_def initial_builder_def finishConnection_def)

section \<open>Removing a block\<close>

text \<open>
  Claim C9. \<open>removeBlock(id)\<close> removes the blocks with that id and every connection with
  id as its source or its target; every other block and every connection between two
  other blocks stays, in its place. If id was the id of a block, the block list gets
  shorter; and if every connection joined two blocks of the state before, every connection
  joins two blocks of the state after.
\<close>

theorem removeBlock_removes_block_and_its_connections:
  "blocks (fst (removeBlock blockId st)) = filter (\<lambda>b. block_id b \<noteq> blockId) (blocks st) \<and>
   connections (fst (removeBlock blockId st)) =
     filter (\<lambda>c. source_block_id c \<noteq> blockId \<and> target_block_id c \<noteq> blockId) (connections st) \<and>
   blockId \<notin> block_id ` set (blocks (fst (removeBlock blockId st))) \<and>
   (\<forall>c \<in> set (connections (fst (removeBlock blockId st))).
      source_block_id c \<noteq> blockId \<and> target_block_id c \<noteq> blockId) \<and>
   (\<forall>b \<in> set (blocks st). block_id b \<noteq> blockId \<longrightarrow> b \<in> set (blocks (fst (removeBlock blockId st)))) \<and>
   (\<forall>c \<in> set (connections st). source_block_id c \<noteq> blockId \<and> target_block_id c \<noteq> blockId \<longrightarrow>
      c \<in> set (connections (fst (removeBlock blockId st)))) \<and>
   subseq (blocks (fst (removeBlock blockId st))) (blocks st) \<and>
   subseq (connections (fst (removeBlock blockId st))) (connections st) \<and>
   (blockId \<in> block_id ` set (blocks st) \<longrightarrow>
      length (blocks (fst (removeBlock blockId st))) < length (blocks st)) \<and>
   (connections_closed st \<longrightarrow> connections_closed (fst (removeBlock blockId st)))"
proof -
  let ?st' = "fst (removeBlock blockId st)"
  have b: "blocks ?st' = filter (\<lambda>b. block_id b \<noteq> blockId) (blocks st)"
    and c: "connections ?st' =
      filter (\<lambda>c. source_block_id c \<noteq> blockId \<and> target_block_id c \<noteq> blockId) (connections st)"
    by (simp_all add: removeBlock_def)
  have shorter: "length (blocks ?st') < length (blocks st)" if "blockId \<in> block_id ` set (blocks st)"
  proof -
    from that obtain x where "x \<in> set (blocks st)" "\<not> block_id x \<noteq> blockId"
      by auto
    then show ?thesis
      unfolding b by (rule length_filter_less)
  qed
  have closed: "connections_closed ?st'" if "connections_closed st"
    using that unfolding connections_closed_def b c list_all_iff by auto
  have sub: "subseq (blocks ?st') (blocks st)" "subseq (connections ?st') (connections st)"
    unfolding b c by simp_all
  have rest: "blockId \<notin> block_id ` set (blocks ?st')"
    "\<forall>c \<in> set (connections ?st'). source_block_id c \<noteq> blockId \<and> target_block_id c \<noteq> blockId"
    "\<forall>b \<in> set (blocks st). block_id b \<noteq> blockId \<longrightarrow> b \<in> set (blocks ?st')"
    "\<forall>c \<in> set (connections st). source_block_id c \<noteq> blockId \<and> target_block_id c \<noteq> blockId \<longrightarrow>
        c \<in> set (connections ?st')"
    unfolding b c by auto
  from b c rest sub shorter closed show ?thesis
    by blast
qed

lemma three_blocks_ids: "map block_id (blocks three_blocks) = [''b1'', ''b2'', ''b3'']"
  by (simp add: three_blocks_def place_block_def new_block_def initial_builder_def)

lemma two_connected_state:
  "map block_id (blocks two_connected) = [''b1'', ''b2'', ''b3''] \<and>
   connections two_connected =
     [\<lparr>connection_id = ''c1'', source_block_id = ''b1'', target_block_id = ''b2''\<rparr>,
      \<lparr>connection_id = ''c2'', source_block_id = ''b2'', target_block_id = ''b3''\<rparr>]"
proof -
  have "connections three_blocks = []"
    by (simp add: three_blocks_def place_block_def new_block_def initial_builder_def)
  then show ?thesis
    by (simp add: two_connected_def connectBlocks_def three_blocks_ids)
qed

theorem removeBlock_removes_block_and_its_connections_witness:
  "map block_id (blocks (fst (removeBlock ''b1'' two_connected))) = [''b2'', ''b3''] \<and>
   connections (fst (removeBlock ''b1'' two_connected)) =
     [\<lparr>connection_id = ''c2'', source_block_id = ''b2'', target_block_id = ''b3''\<rparr>] \<and>
   ''b1'' \<in> block_id ` set (blocks two_connected) \<and>
   length (blocks (fst (removeBlock ''b1'' two_connected))) < length (blocks two_connected) \<and>
   connections_closed two_connected \<and>
   connections_closed (fst (removeBlock ''b1'' two_connected))"
proof -
  have ids: "block_id ` set (blocks two_connected) = {''b1'', ''b2'', ''b3''}"
    using two_connected_state by (metis list.set_map list.simps(15) empty_set)
  have closed: "connections_closed two_connected"
    unfolding connections_closed_def ids by (simp add: two_connected_state)
  have "map block_id (filter (\<lambda>b. block_id b \<noteq> ''b1'') (blocks two_connected)) =
        filter (\<lambda>i. i \<noteq> ''b1'') (map block_id (blocks two_connected))"
    by (simp add: filter_map comp_def)
  then have kept: "map block_id (filter (\<lambda>b. block_id b \<noteq> ''b1'') (blocks two_connected)) = [''b2'', ''b3'']"
    by (simp add: two_connected_state)
  note spec = removeBlock_removes_block_and_its_connections[of "''b1''" two_connected]
  have mem: "''b1'' \<in> block_id ` set (blocks two_connected)"
    by (simp add: ids)
  have w1: "map block_id (blocks (fst (removeBlock ''b1'' two_connected))) = [''b2'', ''b3'']"
    using spec kept by simp
  have w2: "connections (fst (removeBlock ''b1'' two_connected)) =
     [\<lparr>connection_id = ''c2'', source_block_id = ''b2'', target_block_id = ''b3''\<rparr>]"
    using spec by (simp add: two_connected_state)
  have w3: "length (blocks (fst (removeBlock ''b1'' two_connected))) < length (blocks two_connected)"
    using spec mem by blast
  have w4: "connections_closed (fst (removeBlock ''b1'' two_connected))"
    using spec closed by blast
  from w1 w2 mem w3 closed w4 show ?thesis
    by blast
qed

section \<open>Default parameters\<close>

text \<open>
  Claim C7. The default parameters of an \<open>enrich_lead\<close> and of a \<open>find_email\<close> block have
  \<open>batch_size\<close> 10, in every variant of the builder, which is the default batch size of
  the Enrichment Client; so has every block of these two types that \<open>addBlock\<close> creates
  (\<open>addBlock\<close> returns whenever it is given a position or no existing block lies above
  2^52).
\<close>

theorem default_batch_size_is_ten:
  "map_of (getDefaultParameters enrich_lead) ''batch_size'' = Some (JNum (int default_batch_size)) \<and>
   map_of (getDefaultParameters find_email) ''batch_size'' = Some (JNum (int default_batch_size)) \<and>
   map_of (getDefaultParameters_connect enrich_lead) ''batch_size'' = Some (JNum (int default_batch_size)) \<and>
   map_of (getDefaultParameters_connect find_email) ''batch_size'' = Some (JNum (int default_batch_size)) \<and>
   default_batch_size = 10 \<and>
   ((blockType = enrich_lead \<or> blockType = find_email) \<and>
    (defaults = getDefaultParameters \<or> defaults = getDefaultParameters_connect) \<longrightarrow>
      (\<forall>added. addBlock defaults uuid blockType pos st = Some added \<longrightarrow>
         map_of (parameters (last (blocks (fst added)))) ''batch_size'' = Some (JNum 10)) \<and>
      (pos \<noteq> None \<or> (\<forall>b \<in> set (blocks st). pos_y (position b) \<le> 2 ^ 52) \<longrightarrow>
         (\<exists>added. addBlock defaults uuid blockType pos st = Some added)) \<and>
      map_of (parameters (last (blocks (fst (addBlock_random random1 random2 uuid blockType st)))))
        ''batch_size'' = Some (JNum 10))"
proof -
  have tables:
    "map_of (getDefaultParameters enrich_lead) ''batch_size'' = Some (JNum 10)"
    "map_of (getDefaultParameters find_email) ''batch_size'' = Some (JNum 10)"
    "map_of (getDefaultParameters_connect enrich_lead) ''batch_size'' = Some (JNum 10)"
    "map_of (getDefaultParameters_connect find_email) ''batch_size'' = Some (JNum 10)"
    by (simp_all add: getDefaultParameters_def getDefaultParameters_connect_def)
  have placed: "map_of (parameters (last (blocks (fst (place_block d uuid blockType x y st)))))
      ''batch_size'' = map_of (d blockType) ''batch_size''" for d x y
    by (simp add: place_block_def new_block_def Let_def)
  have created: "map_of (parameters (last (blocks (fst added)))) ''batch_size''
      = map_of (defaults blockType) ''batch_size''"
    if "addBlock defaults uuid blockType pos st = Some added" for added
    using that placed[of defaults]
    by (auto simp: addBlock_def Let_def split: if_splits option.splits)
  have returns: "\<exists>added. addBlock defaults uuid blockType pos st = Some added"
    if "pos \<noteq> None \<or> (\<forall>b \<in> set (blocks st). pos_y (position b) \<le> 2 ^ 52)"
  proof (cases pos)
    case (Some p)
    then show ?thesis
      by (simp add: addBlock_def Let_def)
  next
    case None
    with that have b: "\<forall>p \<in> set (map position (blocks st)). pos_y p \<le> 2 ^ 52"
      by simp
    have "200 = 200 + 160 * real 0"
      by simp
    then have "on_grid 200 200"
      unfolding on_grid_def by blast
    from find_free_position_returns[OF b this] None show ?thesis
      by (auto simp: addBlock_def)
  qed
  from tables placed[of getDefaultParameters] created returns show ?thesis
    by (auto simp: default_batch_size_def addBlock_random_def)
qed

theorem default_batch_size_is_ten_witness:
  "addBlock getDefaultParameters ''b4'' find_email None three_blocks =
     Some (place_block getDefaultParameters ''b4'' find_email 200 360 three_blocks) \<and>
   map_of (parameters (last (blocks
      (fst (place_block getDefaultParameters ''b4'' find_email 200 360 three_blocks))))) ''batch_size''
     = Some (JNum 10) \<and>
   addBlock getDefaultParameters_connect ''b4'' enrich_lead
       (Some \<lparr>pos_x = 310, pos_y = 95\<rparr>) three_blocks =
     Some (place_block getDefaultParameters_connect ''b4'' enrich_lead 310 95 three_blocks) \<and>
   map_of (parameters (last (blocks
      (fst (place_block getDefaultParameters_connect ''b4'' enrich_lead 310 95 three_blocks)))))
      ''batch_size'' = Some (JNum 10)"
proof -
  have a1: "addBlock getDefaultParameters ''b4'' find_email None three_blocks =
     Some (place_block getDefaultParameters ''b4'' find_email 200 360 three_blocks)"
    by (simp add: addBlock_def fourth_position)
  have a2: "addBlock getDefaultParameters_connect ''b4'' enrich_lead
       (Some \<lparr>pos_x = 310, pos_y = 95\<rparr>) three_blocks =
     Some (place_block getDefaultParameters_connect ''b4'' enrich_lead 310 95 three_blocks)"
    by (simp add: addBlock_def or_default_def)
  from default_batch_size_is_ten[of find_email getDefaultParameters "''b4''" None three_blocks] a1
    default_batch_size_is_ten[of enrich_lead getDefaultParameters_connect "''b4''"
      "Some \<lparr>pos_x = 310, pos_y = 95\<rparr>" three_blocks] a2
  show ?thesis
    by simp
qed

section \<open>The data preview\<close>

lemma collect_rows_map: "collect_rows rs = Inr vs \<Longrightarrow> rs = map Inr vs"
proof (induction rs arbitrary: vs)
  case Nil
  then show ?case by simp
next
  case (Cons r rs)
  then show ?case
    by (cases r; cases "collect_rows rs") auto
qed

lemma collect_rows_total:
  "list_all (\<lambda>r. \<exists>v. r = Inr v) rs \<Longrightarrow> \<exists>vs. collect_rows rs = Inr vs"
proof (induction rs)
  case Nil
  then show ?case by simp
next
  case (Cons r rs)
  then obtain v vs where "r = Inr v" "collect_rows rs = Inr vs"
    by auto
  then show ?case by simp
qed

lemma render_row_total: "row \<noteq> JNull \<Longrightarrow> \<exists>v. render_row cell columns row = Inr v"
  by (simp add: render_row_def)

lemma is_object_facts: "is_object v \<Longrightarrow> v \<noteq> JNull \<and> typeof_object v \<and> \<not> falsy v"
  by (cases v) (simp_all add: is_object_def typeof_object_def falsy_def)

text \<open>
  Claim C8. Whenever \<open>renderDataPreview\<close> renders a data array as a table, the table has
  exactly min(length, 10) body rows, which are the first rows of the array, and it has the
  line "Showing 10 of \<open>length\<close> rows" exactly when the array has more than 10 rows. In the
  table view, an array that is not empty and whose first ten rows are objects is rendered
  as such a table.
\<close>

theorem table_preview_is_bounded:
  "(renderDataPreview keys cell viewMode (Some (JArr rows)) = Inr (Some (table_view columns body footer))
      \<longrightarrow> length body = min (length rows) 10 \<and>
          map Inr body = map (render_row cell columns) (take 10 rows) \<and>
          footer = (if length rows > 10 then Some (10, length rows) else None)) \<and>
   (rows \<noteq> [] \<and> list_all is_object (take 10 rows) \<longrightarrow>
      (\<exists>body. renderDataPreview keys cell view_table (Some (JArr rows)) =
         Inr (Some (table_view (keys (hd rows)) body
                (if length rows > 10 then Some (10, length rows) else None)))))"
proof (rule conjI; rule impI)
  assume r: "renderDataPreview keys cell viewMode (Some (JArr rows)) =
               Inr (Some (table_view columns body footer))"
  show "length body = min (length rows) 10 \<and>
        map Inr body = map (render_row cell columns) (take 10 rows) \<and>
        footer = (if length rows > 10 then Some (10, length rows) else None)"
  proof (cases rows)
    case Nil
    with r show ?thesis
      by (simp add: renderDataPreview_def falsy_def split: if_splits)
  next
    case (Cons first rest)
    with r obtain b where
      b: "collect_rows (map (render_row cell (keys first)) (take 10 (first # rest))) = Inr b"
      and res: "table_view (keys first) b
                 (if length (first # rest) > 10 then Some (10, length (first # rest)) else None)
                = table_view columns body footer"
      by (auto simp: renderDataPreview_def falsy_def Let_def split: if_splits sum.splits)
    from collect_rows_map[OF b]
    have m: "map (render_row cell (keys first)) (take 10 rows) = map Inr b"
      by (simp add: Cons)
    then have "length (map (render_row cell (keys first)) (take 10 rows)) = length (map Inr b)"
      by simp
    then have "length b = min (length rows) 10"
      by (simp add: min.commute)
    with res Cons m show ?thesis
      by auto
  qed
next
  assume a: "rows \<noteq> [] \<and> list_all is_object (take 10 rows)"
  then obtain first rest where rows: "rows = first # rest"
    by (cases rows) auto
  with a have first: "is_object first"
    by simp
  have "list_all (\<lambda>r. \<exists>v. r = Inr v) (map (render_row cell (keys first)) (take 10 rows))"
    using a by (auto simp: list_all_iff dest!: is_object_facts intro: render_row_total)
  from collect_rows_total[OF this] obtain b where
    b: "collect_rows (map (render_row cell (keys first)) (take 10 (first # rest))) = Inr b"
    by (auto simp: rows)
  show "\<exists>body. renderDataPreview keys cell view_table (Some (JArr rows)) =
         Inr (Some (table_view (keys (hd rows)) body
                (if length rows > 10 then Some (10, length rows) else None)))"
    using is_object_facts[OF first] b
    by (simp add: renderDataPreview_def rows falsy_def Let_def)
qed

lemma twelve_rows_facts:
  "twelve_rows \<noteq> [] \<and> list_all is_object (take 10 twelve_rows) \<and> length twelve_rows = 12"
  by (simp add: twelve_rows_def is_object_def list_all_iff)

theorem table_preview_is_bounded_witness:
  "\<exists>body. renderDataPreview sample_keys sample_cell view_table (Some (JArr twelve_rows)) =
      Inr (Some (table_view [''company''] body (Some (10, 12)))) \<and> length body = 10"
proof -
  note spec = table_preview_is_bounded[of sample_keys sample_cell view_table twelve_rows]
  have hd: "sample_keys (hd twelve_rows) = [''company'']"
    by (simp add: twelve_rows_def sample_keys_def numeral_eq_Suc)
  from spec[of "[]" "[]" None] twelve_rows_facts
  have "\<exists>body. renderDataPreview sample_keys sample_cell view_table (Some (JArr twelve_rows)) =
      Inr (Some (table_view (sample_keys (hd twelve_rows)) body (Some (10, 12))))"
    by simp
  then obtain body where
    body: "renderDataPreview sample_keys sample_cell view_table (Some (JArr twelve_rows)) =
      Inr (Some (table_view [''company''] body (Some (10, 12))))"
    by (auto simp: hd)
  with spec[of "[''company'']" body "Some (10, 12)"] twelve_rows_facts have "length body = 10"
    by simp
  with body show ?thesis
    by blast
qed

section \<open>The job lifecycle\<close>

lemma JobStatus_values: "(UNIV :: JobStatus set) = {pending, running, completed, failed, cancelled}"
proof -
  have "s \<in> {pending, running, completed, failed, cancelled}" for s :: JobStatus
    by (cases s) simp_all
  then show ?thesis
    by blast
qed

lemma step_status:
  "status (job (step run_block ex ev)) = status (job ex) \<or>
   allowed_transition (status (job ex)) (status (job (step run_block ex ev)))"
  by (cases "fst ev")
     (auto simp: step_def allowed_transition_def finish_job_def record_result_def Let_def
       split: list.splits)

lemma step_terminal: "terminal (status (job ex)) \<Longrightarrow> step run_block ex ev = ex"
  by (cases "fst ev") (auto simp: step_def terminal_def)

lemma run_events_terminal:
  "terminal (status (job ex)) \<Longrightarrow> run_events run_block ex evs = ex"
  unfolding run_events_def by (induction evs) (simp_all add: step_terminal)

lemma run_events_Cons:
  "run_events run_block ex (ev # evs) = run_events run_block (step run_block ex ev) evs"
  by (simp add: run_events_def)

lemma step_results_prefix: "prefix (results (job ex)) (results (job (step run_block ex ev)))"
  by (cases "fst ev")
     (auto simp: step_def finish_job_def record_result_def Let_def split: list.splits)

lemma run_events_results_prefix:
  "prefix (results (job ex)) (results (job (run_events run_block ex evs)))"
proof (induction evs arbitrary: ex)
  case Nil
  then show ?case by (simp add: run_events_def)
next
  case (Cons ev evs)
  have "prefix (results (job ex)) (results (job (step run_block ex ev)))"
    by (rule step_results_prefix)
  also have "prefix \<dots> (results (job (run_events run_block (step run_block ex ev) evs)))"
    by (rule Cons.IH)
  finally show ?case
    by (simp add: run_events_Cons)
qed

lemma step_cancel_pending:
  assumes "cancel_pending ex"
  shows "cancel_pending (step run_block ex ev) \<and>
         results (job (step run_block ex ev)) = results (job ex) \<and>
         queue (step run_block ex ev) = queue ex"
  using assms
  by (cases "fst ev") (auto simp: cancel_pending_def step_def finish_job_def)

lemma step_boundary_cancels:
  "cancel_pending ex \<Longrightarrow> fst ev = block_boundary \<Longrightarrow>
   status (job (step run_block ex ev)) = cancelled"
  by (auto simp: cancel_pending_def step_def finish_job_def)

lemma run_events_cancel_pending:
  "cancel_pending ex \<Longrightarrow>
   cancel_pending (run_events run_block ex evs) \<and>
   results (job (run_events run_block ex evs)) = results (job ex) \<and>
   queue (run_events run_block ex evs) = queue ex"
proof (induction evs arbitrary: ex)
  case Nil
  then show ?case by (simp add: run_events_def)
next
  case (Cons ev evs)
  from step_cancel_pending[OF Cons.prems, of run_block ev] Cons.IH[of "step run_block ex ev"]
  show ?case
    by (simp add: run_events_Cons)
qed

lemma run_events_cancelled:
  "cancel_pending ex \<Longrightarrow> block_boundary \<in> fst ` set evs \<or> status (job ex) = cancelled \<Longrightarrow>
   status (job (run_events run_block ex evs)) = cancelled"
proof (induction evs arbitrary: ex)
  case Nil
  then show ?case by (simp add: run_events_def)
next
  case (Cons ev evs)
  have pend: "cancel_pending (step run_block ex ev)"
    using step_cancel_pending[OF Cons.prems(1)] by blast
  show ?case
  proof (cases "status (job ex) = cancelled")
    case True
    then have "terminal (status (job ex))"
      by (simp add: terminal_def)
    then show ?thesis
      using True by (simp add: run_events_terminal)
  next
    case False
    show ?thesis
    proof (cases "fst ev = block_boundary")
      case True
      from step_boundary_cancels[OF Cons.prems(1) True]
      have "status (job (step run_block ex ev)) = cancelled" .
      with Cons.IH[OF pend] show ?thesis
        by (simp add: run_events_Cons)
    next
      case nb: False
      with Cons.prems(2) False have "block_boundary \<in> fst ` set evs"
        by auto
      with Cons.IH[OF pend] show ?thesis
        by (simp add: run_events_Cons)
    qed
  qed
qed

text \<open>
  Claim C6. A job status is one of pending, running, completed, failed and cancelled. A
  job is created pending; a step of the job controller either leaves the status as it is
  or makes one of the transitions pending to running, running to completed, running to
  failed, running to cancelled; a job whose status is completed, failed or cancelled is
  not changed by any sequence of events. The job monitor offers the cancellation request
  only for a job it shows as running.
\<close>

theorem job_status_transitions:
  "(UNIV :: JobStatus set) = {pending, running, completed, failed, cancelled} \<and>
   status (job (submitJob jid wid now plan)) = pending \<and>
   (status (job (step run_block ex ev)) = status (job ex) \<or>
    allowed_transition (status (job ex)) (status (job (step run_block ex ev)))) \<and>
   (terminal (status (job ex)) \<longrightarrow> run_events run_block ex evs = ex) \<and>
   (cancel_button selectedJob = Some requested \<longrightarrow>
      status selectedJob = running \<and> requested = job_id selectedJob)"
  using JobStatus_values step_status[of run_block ex ev] run_events_terminal[of ex run_block evs]
  by (auto simp: submitJob_def cancel_button_def split: if_splits)

text \<open>
  Claim C5. When a running job is cancelled, then whatever events follow, the result
  sequence stays exactly the one of the blocks completed before the request, no result is
  appended, the queue keeps every block that had not started (the next queued block is
  never run), and the first block boundary after the request makes the job cancelled.
  In every run, the results recorded so far stay a prefix of the later result sequence.
\<close>

theorem cancellation_keeps_results:
  "(status (job ex) = running \<longrightarrow>
     results (job (run_events run_block (step run_block ex (cancellation_request, now)) evs))
       = results (job ex) \<and>
     queue (run_events run_block (step run_block ex (cancellation_request, now)) evs) = queue ex \<and>
     (status (job (run_events run_block (step run_block ex (cancellation_request, now)) evs)) = running \<or>
      status (job (run_events run_block (step run_block ex (cancellation_request, now)) evs)) = cancelled) \<and>
     (block_boundary \<in> fst ` set evs \<longrightarrow>
        status (job (run_events run_block (step run_block ex (cancellation_request, now)) evs))
          = cancelled)) \<and>
   prefix (results (job ex)) (results (job (run_events run_block ex evs)))"
proof (rule conjI, rule impI)
  assume r: "status (job ex) = running"
  let ?c = "step run_block ex (cancellation_request, now)"
  have c: "?c = ex\<lparr>cancel_requested := True\<rparr>"
    using r by (simp add: step_def)
  then have pend: "cancel_pending ?c"
    using r by (simp add: cancel_pending_def)
  from run_events_cancel_pending[OF pend, of run_block evs]
  have keep: "cancel_pending (run_events run_block ?c evs)"
    "results (job (run_events run_block ?c evs)) = results (job ex)"
    "queue (run_events run_block ?c evs) = queue ex"
    by (simp_all add: c)
  have "block_boundary \<in> fst ` set evs \<longrightarrow> status (job (run_events run_block ?c evs)) = cancelled"
    using run_events_cancelled[OF pend, of evs run_block] by blast
  with keep
  show "results (job (run_events run_block ?c evs)) = results (job ex) \<and>
     queue (run_events run_block ?c evs) = queue ex \<and>
     (status (job (run_events run_block ?c evs)) = running \<or>
      status (job (run_events run_block ?c evs)) = cancelled) \<and>
     (block_boundary \<in> fst ` set evs \<longrightarrow> status (job (run_events run_block ?c evs)) = cancelled)"
    by (auto simp: cancel_pending_def)
next
  show "prefix (results (job ex)) (results (job (run_events run_block ex evs)))"
    by (rule run_events_results_prefix)
qed

lemma three_blocks_plan:
  "\<exists>b1 b2 b3. blocks three_blocks = [b1, b2, b3] \<and> block_type b1 = read_csv \<and>
     block_type b2 = enrich_lead \<and> block_type b3 = save_csv"
  by (simp add: three_blocks_def place_block_def new_block_def initial_builder_def)

lemma one_block_done_facts:
  "status (job one_block_done) = running \<and> length (results (job one_block_done)) = 1 \<and>
   length (queue one_block_done) = 2"
proof -
  from three_blocks_plan obtain b1 b2 b3 where
    "blocks three_blocks = [b1, b2, b3]" "block_type b1 = read_csv"
    by blast
  then show ?thesis
    by (simp add: one_block_done_def sample_job_def submitJob_def run_events_def step_def
        sample_run_def record_result_def Let_def)
qed

theorem cancellation_keeps_results_witness:
  "status (job one_block_done) = running \<and>
   length (results (job one_block_done)) = 1 \<and>
   results (job (run_events sample_run (step sample_run one_block_done (cancellation_request, ''t3''))
                  [(block_boundary, ''t4''), (block_boundary, ''t5'')]))
     = results (job one_block_done) \<and>
   length (queue (run_events sample_run (step sample_run one_block_done (cancellation_request, ''t3''))
                  [(block_boundary, ''t4''), (block_boundary, ''t5'')])) = 2 \<and>
   status (job (run_events sample_run (step sample_run one_block_done (cancellation_request, ''t3''))
                  [(block_boundary, ''t4''), (block_boundary, ''t5'')])) = cancelled"
  using cancellation_keeps_results[of one_block_done sample_run "''t3''"
      "[(block_boundary, ''t4''), (block_boundary, ''t5'')]"] one_block_done_facts
  by simp

lemma finished_job_status: "status (job finished_job) = completed"
  by (simp add: finished_job_def submitJob_def run_events_def step_def finish_job_def)

lemma started_job_facts: "status (job started_job) = running \<and> job_id (job started_job) = ''j1''"
  by (simp add: started_job_def sample_job_def submitJob_def step_def)

theorem job_status_transitions_witness:
  "status (job sample_job) = pending \<and>
   allowed_transition (status (job sample_job))
     (status (job (step sample_run sample_job (execution_request, ''t1'')))) \<and>
   terminal (status (job finished_job)) \<and>
   run_events sample_run finished_job
     [(execution_request, ''t7''), (cancellation_request, ''t8''), (block_boundary, ''t9'')]
     = finished_job \<and>
   status (job started_job) = running \<and>
   cancel_button (job started_job) = Some ''j1''"
proof -
  note spec = job_status_transitions[of "''j1''" "''w1''" "''t0''" "blocks three_blocks" sample_run]
  have p: "status (job sample_job) = pending"
    using spec by (simp add: sample_job_def)
  have "status (job (step sample_run sample_job (execution_request, ''t1''))) = running"
    using started_job_facts by (simp add: started_job_def)
  with p have a: "allowed_transition (status (job sample_job))
     (status (job (step sample_run sample_job (execution_request, ''t1''))))"
    using spec[of sample_job "(execution_request, ''t1'')"] by auto
  have t: "terminal (status (job finished_job))"
    by (simp add: finished_job_status terminal_def)
  with spec[of finished_job _
      "[(execution_request, ''t7''), (cancellation_request, ''t8''), (block_boundary, ''t9'')]"]
  have f: "run_events sample_run finished_job
     [(execution_request, ''t7''), (cancellation_request, ''t8''), (block_boundary, ''t9'')]
     = finished_job"
    by blast
  have "cancel_button (job started_job) = Some ''j1''"
    using started_job_facts by (simp add: cancel_button_def)
  with p a t f started_job_facts show ?thesis
    by blast
qed

section \<open>The filter executor\<close>

text \<open>
  Claim C3. Whenever the filter executor returns, its output row count is at most its input
  row count, and the output rows are a subsequence of the input rows. With a well-formed
  predicate it always returns, with exactly the rows on which the predicate evaluates to
  true; a row on which the evaluation fails is not in the output and does not make the
  executor fail.
\<close>

theorem filter_never_adds_rows:
  "(execute_filter compile condition inputTable = Inr executed \<longrightarrow>
      rowsOut executed \<le> rowsIn executed \<and> rowsIn executed = length inputTable \<and>
      (\<exists>out. outputTable executed = Some out \<and> rowsOut executed = length out \<and>
             subseq out inputTable)) \<and>
   (compile condition = Inr predicate \<longrightarrow>
      execute_filter compile condition inputTable =
        Inr \<lparr>outputTable = Some (filter (\<lambda>r. predicate r = Some True) inputTable),
             rowsIn = length inputTable,
             rowsOut = length (filter (\<lambda>r. predicate r = Some True) inputTable)\<rparr> \<and>
      (\<forall>r \<in> set inputTable. predicate r = None \<longrightarrow>
         r \<notin> set (filter (\<lambda>r. predicate r = Some True) inputTable)))"
proof (rule conjI; rule impI)
  assume "execute_filter compile condition inputTable = Inr executed"
  then obtain predicate where
    "executed = \<lparr>outputTable = Some (filter (\<lambda>r. predicate r = Some True) inputTable),
                 rowsIn = length inputTable,
                 rowsOut = length (filter (\<lambda>r. predicate r = Some True) inputTable)\<rparr>"
    by (auto simp: execute_filter_def Let_def split: sum.splits)
  then show "rowsOut executed \<le> rowsIn executed \<and> rowsIn executed = length inputTable \<and>
      (\<exists>out. outputTable executed = Some out \<and> rowsOut executed = length out \<and>
             subseq out inputTable)"
    by simp
next
  assume "compile condition = Inr predicate"
  then show "execute_filter compile condition inputTable =
        Inr \<lparr>outputTable = Some (filter (\<lambda>r. predicate r = Some True) inputTable),
             rowsIn = length inputTable,
             rowsOut = length (filter (\<lambda>r. predicate r = Some True) inputTable)\<rparr> \<and>
      (\<forall>r \<in> set inputTable. predicate r = None \<longrightarrow>
         r \<notin> set (filter (\<lambda>r. predicate r = Some True) inputTable))"
    by (simp add: execute_filter_def Let_def)
qed

theorem filter_never_adds_rows_witness:
  "execute_filter sample_compile ''Acme'' leads =
     Inr \<lparr>outputTable = Some [[(''name'', JStr ''Ann''), (''company'', JStr ''Acme'')],
                              [(''company'', JStr ''Acme'')]],
          rowsIn = 3, rowsOut = 2\<rparr> \<and>
   rowsOut \<lparr>outputTable = Some [[(''name'', JStr ''Ann''), (''company'', JStr ''Acme'')],
                              [(''company'', JStr ''Acme'')]],
          rowsIn = 3, rowsOut = 2\<rparr> \<le> (3::nat)"
proof -
  let ?p = "\<lambda>r. case map_of r ''company'' of None \<Rightarrow> None | Some v \<Rightarrow> Some (v = JStr ''Acme'')"
  have c: "sample_compile ''Acme'' = Inr ?p"
    by (simp add: sample_compile_def)
  have f: "filter (\<lambda>r. ?p r = Some True) leads =
      [[(''name'', JStr ''Ann''), (''company'', JStr ''Acme'')], [(''company'', JStr ''Acme'')]]"
    by (simp add: leads_def)
  have "length leads = 3"
    by (simp add: leads_def)
  with filter_never_adds_rows[of sample_compile "''Acme''" leads _ ?p] c f show ?thesis
    by simp
qed

section \<open>The enrichment executors\<close>

lemma concat_batches: "0 < n \<Longrightarrow> concat (batches n xs) = xs"
proof (induction n xs rule: batches.induct)
  case (1 n xs)
  show ?case
  proof (cases "xs = []")
    case True
    then show ?thesis
      by (simp add: batches.simps)
  next
    case False
    with 1 have "concat (batches n (drop n xs)) = drop n xs"
      by simp
    with False 1(2) show ?thesis
      by (subst batches.simps) simp
  qed
qed

lemma enrichBatch_all:
  assumes "0 < n"
  shows "enrichBatch service records request n = Inr (map (\<lambda>r. (r, service request r)) records)"
proof -
  have "concat (map (map (\<lambda>r. (r, service request r))) (batches n records)) =
        map (\<lambda>r. (r, service request r)) (concat (batches n records))"
    by (simp add: map_concat)
  with assms show ?thesis
    by (simp add: enrichBatch_def concat_batches)
qed

lemma enrich_rows_result:
  assumes "0 < n"
  shows "enrich_rows service marker selected request n t =
     Inr \<lparr>outputTable =
            Some (map (\<lambda>r. enriched_row marker r (service request (select_columns selected r))) t),
          rowsIn = length t, rowsOut = length t\<rparr>"
proof -
  have "map (\<lambda>(r, oc). enriched_row marker r (snd oc))
          (zip t (map (\<lambda>r. (r, service request r)) (map (select_columns selected) t)))
        = map (\<lambda>r. enriched_row marker r (service request (select_columns selected r))) t"
    by (induction t) simp_all
  then show ?thesis
    using assms by (simp add: enrich_rows_def enrichBatch_all Let_def)
qed

lemma enrich_rows_counts:
  assumes "enrich_rows service marker selected request n t = Inr executed"
  shows "rowsOut executed = rowsIn executed \<and> rowsIn executed = length t \<and>
         (\<exists>out. outputTable executed = Some out \<and> length out = length t \<and>
            (\<forall>i < length t.
               case service request (select_columns selected (t ! i)) of
                 enriched returned \<Rightarrow> out ! i = merge_fields (t ! i) returned
               | enrichment_error msg \<Rightarrow> out ! i = t ! i @ [(marker, JStr msg)]))"
proof -
  have n: "0 < n"
    using assms by (cases "n = 0") (simp_all add: enrich_rows_def enrichBatch_def)
  have "\<forall>i < length t.
          case service request (select_columns selected (t ! i)) of
            enriched returned \<Rightarrow>
              map (\<lambda>r. enriched_row marker r (service request (select_columns selected r))) t ! i
                = merge_fields (t ! i) returned
          | enrichment_error msg \<Rightarrow>
              map (\<lambda>r. enriched_row marker r (service request (select_columns selected r))) t ! i
                = t ! i @ [(marker, JStr msg)]"
    by (auto simp: enriched_row_def split: outcome.splits)
  with assms show ?thesis
    unfolding enrich_rows_result[OF n] by auto
qed

text \<open>
  Claim C4. Whenever the enrich-record or the find-contact executor returns, the output
  has as many rows as the input (rowsOut = rowsIn); output row i is input row i with the
  returned fields merged in, or, when the enrichment call for it failed, input row i with
  its original cells followed by the error marker. With a positive batch size both
  executors return.
\<close>

theorem enrichment_keeps_every_row:
  "(execute_enrich_record service marker selected target_fields batchSize inputTable = Inr executed \<longrightarrow>
      rowsOut executed = rowsIn executed \<and> rowsIn executed = length inputTable \<and>
      (\<exists>out. outputTable executed = Some out \<and> length out = length inputTable \<and>
         (\<forall>i < length inputTable.
            case service \<lparr>field_schema = target_fields, aggressive_search = False\<rparr>
                   (select_columns selected (inputTable ! i)) of
              enriched returned \<Rightarrow> out ! i = merge_fields (inputTable ! i) returned
            | enrichment_error msg \<Rightarrow> out ! i = inputTable ! i @ [(marker, JStr msg)]))) \<and>
   (execute_find_contact service marker selected contact_fields aggressive batchSize inputTable
       = Inr found \<longrightarrow>
      rowsOut found = rowsIn found \<and> rowsIn found = length inputTable \<and>
      (\<exists>out. outputTable found = Some out \<and> length out = length inputTable \<and>
         (\<forall>i < length inputTable.
            case service \<lparr>field_schema = contact_fields, aggressive_search = aggressive\<rparr>
                   (select_columns selected (inputTable ! i)) of
              enriched returned \<Rightarrow> out ! i = merge_fields (inputTable ! i) returned
            | enrichment_error msg \<Rightarrow> out ! i = inputTable ! i @ [(marker, JStr msg)]))) \<and>
   (0 < batchSize \<longrightarrow>
      (\<exists>e. execute_enrich_record service marker selected target_fields batchSize inputTable = Inr e) \<and>
      (\<exists>e. execute_find_contact service marker selected contact_fields aggressive batchSize inputTable
             = Inr e))"
  using enrich_rows_counts[of service marker selected
      "\<lparr>field_schema = target_fields, aggressive_search = False\<rparr>" batchSize inputTable executed]
    enrich_rows_counts[of service marker selected
      "\<lparr>field_schema = contact_fields, aggressive_search = aggressive\<rparr>" batchSize inputTable found]
  by (simp add: execute_enrich_record_def execute_find_contact_def enrich_rows_result)

theorem enrichment_keeps_every_row_witness:
  "execute_enrich_record sample_service ''enrichment_error'' [''name''] [(''email'', ''Email address'')]
       2 leads =
     Inr \<lparr>outputTable = Some
            [[(''name'', JStr ''Ann''), (''company'', JStr ''Acme''), (''email'', JStr ''found'')],
             [(''name'', JStr ''Bob''), (''email'', JStr ''found'')],
             [(''company'', JStr ''Acme''), (''enrichment_error'', JStr ''no name'')]],
          rowsIn = 3, rowsOut = 3\<rparr> \<and>
   (\<exists>e. execute_find_contact sample_service ''enrichment_error'' [''name''] [(''email'', ''Email address'')]
          True 2 leads = Inr e \<and> rowsOut e = 3 \<and> rowsIn e = 3)"
proof -
  have "(0::nat) < 2"
    by simp
  with enrichment_keeps_every_row[of sample_service "''enrichment_error''" "[''name'']"
      "[(''email'', ''Email address'')]" 2 leads _ "[(''email'', ''Email address'')]" True]
  obtain e where e: "execute_find_contact sample_service ''enrichment_error'' [''name'']
      [(''email'', ''Email address'')] True 2 leads = Inr e"
    by blast
  with enrichment_keeps_every_row[of sample_service "''enrichment_error''" "[''name'']"
      "[(''email'', ''Email address'')]" 2 leads _ "[(''email'', ''Email address'')]" True e]
  have "rowsOut e = 3 \<and> rowsIn e = 3"
    by (simp add: leads_def)
  moreover have "execute_enrich_record sample_service ''enrichment_error'' [''name'']
       [(''email'', ''Email address'')] 2 leads =
     Inr \<lparr>outputTable = Some
            [[(''name'', JStr ''Ann''), (''company'', JStr ''Acme''), (''email'', JStr ''found'')],
             [(''name'', JStr ''Bob''), (''email'', JStr ''found'')],
             [(''company'', JStr ''Acme''), (''enrichment_error'', JStr ''no name'')]],
          rowsIn = 3, rowsOut = 3\<rparr>"
    by (simp add: execute_enrich_record_def enrich_rows_result leads_def enriched_row_def
        sample_service_def select_columns_def merge_fields_def)
  ultimately show ?thesis
    using e by blast
qed

end
